theory Spec2Isabelle
  imports Main "HOL-Library.Word" "HOL-Library.Multiset"
begin

unbundle bit_operations_syntax

section \<open>Class relationship verification: data model\<close>

text \<open>
  A shallow embedding of \<^verbatim>\<open>runtime/bcverify/classrelationships.c\<close>.
  Class names are byte strings (\<^verbatim>\<open>U_8 *\<close> with a length); a byte is a \<^typ>\<open>char\<close>.
\<close>

datatype reason_code = BCV_SUCCESS | BCV_ERR_INTERNAL_ERROR | BCV_ERR_INSUFFICIENT_MEMORY

text \<open>An assertion of the source that fails (\<^verbatim>\<open>Assert_RTV_true\<close>), an access outside a buffer
  or a read through a \<^verbatim>\<open>NULL\<close> pointer stops the function; all three are results of the
  model.\<close>

datatype abort = AssertionFailed | OutOfBounds | NullDereference

text \<open>A loaded class: its name and the interface bit of its ROM class
  (\<^verbatim>\<open>J9ROMCLASS_IS_INTERFACE(clazz->romClass)\<close>).\<close>

record J9Class =
  romClassName :: string
  romIsInterface :: bool

text \<open>The collaborators the functions call through the VM: the loaded-class table of the
  class loader, the hierarchy predicate and the known class \<^verbatim>\<open>java/lang/Throwable\<close>.

  \<open>findsFreedName\<close> is what C leaves open in \<^verbatim>\<open>j9bcv_validateClassRelationships\<close>: line 1098
  frees the class name of the entry and line 1099 gives the entry to \<^verbatim>\<open>hashTableRemove\<close>, which
  hashes and compares that name (\<^verbatim>\<open>relationshipHashFn\<close> with the VM's
  \<^verbatim>\<open>computeHashForUTF8\<close>, \<^verbatim>\<open>relationshipHashEqualFn\<close>). What the freed memory holds then is
  not defined; \<open>findsFreedName vm name\<close> says whether the lookup still finds the entry that was
  under the name.\<close>

record J9JavaVM =
  hashClassTableAt :: "string \<Rightarrow> J9Class option"
  isSameOrSuperClassOf :: "J9Class \<Rightarrow> J9Class \<Rightarrow> bool"
  javaLangThrowable :: "J9Class option"
  findsFreedName :: "string \<Rightarrow> bool"

text \<open>A table entry \<^verbatim>\<open>J9ClassRelationship\<close>: the child's name, the linked list of parent
  nodes from \<^verbatim>\<open>root\<close> (each \<^verbatim>\<open>J9ClassRelationshipNode\<close> holds its own copy of a class name)
  and the flag word.\<close>

record J9ClassRelationship =
  className :: string
  root :: "string list"
  flags :: "32 word"

text \<open>Tracepoints of the snippet-processing functions that carry a verdict on a relationship.\<close>

datatype trace_event =
    ParentClassIsInterface string
  | ParentClassIsSuperClass string
  | InvalidRelationship string
  | ErrorWhileProcessing string string

text \<open>
  The mutable state the functions work on.
  \<^item> \<open>allocs\<close>: the outcomes of the coming requests for memory
    (\<^verbatim>\<open>j9mem_allocate_memory\<close>, \<^verbatim>\<open>hashTableNew\<close>, \<^verbatim>\<open>hashTableAdd\<close>, \<^verbatim>\<open>pool_new\<close>,
    \<^verbatim>\<open>pool_newElement\<close>), one per request, \<open>False\<close> for a request that returns \<^verbatim>\<open>NULL\<close>;
    once the list is used up every request succeeds.
  \<^item> \<open>classRelationshipsHashTable\<close>: the class loader's table, keyed by class name,
    \<open>None\<close> while it is \<^verbatim>\<open>NULL\<close>.
  \<^item> \<open>classRelationshipsPool\<close>: the class loader's node pool, as the number of nodes that
    are allocated from it, \<open>None\<close> while it is \<^verbatim>\<open>NULL\<close>.
  \<^item> \<open>classRelationshipSnippetsHashTable\<close>: the snippet table of the verification data, as
    its entries in the order \<^verbatim>\<open>hashTableStartDo\<close>/\<^verbatim>\<open>hashTableNextDo\<close> visit them.
  \<^item> \<open>trace\<close>: the tracepoints fired by \<^verbatim>\<open>checkSnippetRelationship\<close> and its two callers.
\<close>

record state =
  allocs :: "bool list"
  classRelationshipsHashTable :: "(string \<rightharpoonup> J9ClassRelationship) option"
  classRelationshipsPool :: "nat option"
  classRelationshipSnippetsHashTable :: "(nat \<times> nat) list option"
  trace :: "trace_event list"

definition allocate :: "state \<Rightarrow> bool \<times> state" where
  "allocate st = (case allocs st of [] \<Rightarrow> (True, st) | b # bs \<Rightarrow> (b, st\<lparr>allocs := bs\<rparr>))"

text \<open>Modelled from the spec: the flag bits and the literal of \<^verbatim>\<open>j9consts.h\<close>, which the
  source uses by name; two distinct bits and the name \<^verbatim>\<open>java/lang/Throwable\<close>.\<close>

definition J9RELATIONSHIP_MUST_BE_INTERFACE :: "32 word" where
  "J9RELATIONSHIP_MUST_BE_INTERFACE = 1"

definition J9RELATIONSHIP_PARENT_CLASS_IS_THROWABLE :: "32 word" where
  "J9RELATIONSHIP_PARENT_CLASS_IS_THROWABLE = 2"

definition J9RELATIONSHIP_JAVA_LANG_THROWABLE_STRING :: string where
  "J9RELATIONSHIP_JAVA_LANG_THROWABLE_STRING = ''java/lang/Throwable''"

definition J9_ARE_ANY_BITS_SET :: "32 word \<Rightarrow> 32 word \<Rightarrow> bool" where
  "J9_ARE_ANY_BITS_SET fl bits = (fl AND bits \<noteq> 0)"

section \<open>The class relationship table\<close>

definition findClassRelationship :: "state \<Rightarrow> string \<Rightarrow> J9ClassRelationship option" where
  "findClassRelationship st name =
     (case classRelationshipsHashTable st of None \<Rightarrow> None | Some t \<Rightarrow> t name)"

text \<open>The entry stored under a name: \<^verbatim>\<open>hashTableAdd\<close> of a new entry (the name is the
  entry's own, by \<^verbatim>\<open>relationshipHashEqualFn\<close>), and a store through the pointer to the entry
  that was found under the name.\<close>

definition putClassRelationship :: "state \<Rightarrow> string \<Rightarrow> J9ClassRelationship \<Rightarrow> state" where
  "putClassRelationship st name e =
     (case classRelationshipsHashTable st of
        None \<Rightarrow> st
      | Some t \<Rightarrow> st\<lparr>classRelationshipsHashTable := Some (t(name \<mapsto> e))\<rparr>)"

text \<open>\<^verbatim>\<open>allocateClassRelationshipTableAndPool\<close>: 0 on success, 1 otherwise. The minimum
  size of the pool, chosen by the kind of class loader, does not bound the pool.\<close>

definition allocateClassRelationshipTableAndPool :: "state \<Rightarrow> nat \<times> state" where
  "allocateClassRelationshipTableAndPool st =
     (let (tableOk, st1) = allocate st in
      if \<not> tableOk then (1, st1)
      else
        let st2 = st1\<lparr>classRelationshipsHashTable := Some Map.empty\<rparr>;
            (poolOk, st3) = allocate st2
        in if \<not> poolOk then (1, st3\<lparr>classRelationshipsPool := None\<rparr>)
           else (0, st3\<lparr>classRelationshipsPool := Some 0\<rparr>))"

text \<open>\<^verbatim>\<open>allocateClassRelationshipNode\<close>: a pool element and a copy of the name; the element
  goes back to the pool when the copy cannot be allocated. \<^verbatim>\<open>pool_newElement\<close> gives
  \<^verbatim>\<open>NULL\<close> for a pool that is \<^verbatim>\<open>NULL\<close>.\<close>

definition allocateClassRelationshipNode :: "state \<Rightarrow> string \<Rightarrow> string option \<times> state" where
  "allocateClassRelationshipNode st name =
     (case classRelationshipsPool st of
        None \<Rightarrow> (None, st)
      | Some n \<Rightarrow>
          let (elemOk, st1) = allocate st in
          if \<not> elemOk then (None, st1)
          else
            let st2 = st1\<lparr>classRelationshipsPool := Some (Suc n)\<rparr>;
                (nameOk, st3) = allocate st2
            in if nameOk then (Some name, st3)
               else (None, st3\<lparr>classRelationshipsPool := Some n\<rparr>))"

text \<open>The walk of \<^verbatim>\<open>j9bcv_recordClassRelationship\<close> over the parent nodes, from node number
  \<open>i\<close>: it stops at the first node with a longer name (\<open>addBefore\<close>) or with the same name
  (\<open>alreadyPresent\<close>) and gives the position where it stopped.\<close>

fun walkParents :: "string list \<Rightarrow> string \<Rightarrow> nat \<Rightarrow> bool \<times> bool \<times> nat" where
  "walkParents [] parent i = (False, False, i)"
| "walkParents (w # ws) parent i =
     (if length parent < length w then (False, True, i)
      else if w = parent then (True, False, i)
      else walkParents ws parent (Suc i))"

text \<open>\<^verbatim>\<open>J9_LINKED_LIST_ADD_BEFORE\<close> at position \<open>i\<close> and \<^verbatim>\<open>J9_LINKED_LIST_ADD_LAST\<close>.\<close>

definition linkedListAddBefore :: "string list \<Rightarrow> nat \<Rightarrow> string \<Rightarrow> string list" where
  "linkedListAddBefore xs i node = take i xs @ node # drop i xs"

definition linkedListAddLast :: "string list \<Rightarrow> string \<Rightarrow> string list" where
  "linkedListAddLast xs node = xs @ [node]"

text \<open>Lines 899-924: the entry of the child, found or added with no flags and no nodes.\<close>

definition findOrAddChildEntry :: "state \<Rightarrow> string \<Rightarrow> J9ClassRelationship option \<times> state" where
  "findOrAddChildEntry st child =
     (case findClassRelationship st child of
        Some e \<Rightarrow> (Some e, st)
      | None \<Rightarrow>
          let (nameOk, st1) = allocate st in
          if \<not> nameOk then (None, st1)
          else
            let (addOk, st2) = allocate st1 in
            if \<not> addOk then (None, st2)
            else
              let e = \<lparr>className = child, root = [], flags = 0\<rparr>
              in (Some e, putClassRelationship st2 child e))"

text \<open>Lines 926-979: the flag for \<^verbatim>\<open>java/lang/Throwable\<close>, a node for any other parent.\<close>

definition addParent ::
  "state \<Rightarrow> string \<Rightarrow> J9ClassRelationship \<Rightarrow> string \<Rightarrow> bool \<times> state" where
  "addParent st child e parent =
     (if parent = J9RELATIONSHIP_JAVA_LANG_THROWABLE_STRING then
        (if \<not> J9_ARE_ANY_BITS_SET (flags e) J9RELATIONSHIP_PARENT_CLASS_IS_THROWABLE
         then (True, putClassRelationship st child
                 (e\<lparr>flags := flags e OR J9RELATIONSHIP_PARENT_CLASS_IS_THROWABLE\<rparr>))
         else (True, st))
      else if root e = [] then
        (case allocateClassRelationshipNode st parent of
           (None, st1) \<Rightarrow> (False, st1)
         | (Some node, st1) \<Rightarrow>
             (True, putClassRelationship st1 child
                (e\<lparr>root := linkedListAddLast (root e) node\<rparr>)))
      else
        (let (alreadyPresent, addBefore, i) = walkParents (root e) parent 0 in
         if alreadyPresent then (True, st)
         else
           (case allocateClassRelationshipNode st parent of
              (None, st1) \<Rightarrow> (False, st1)
            | (Some node, st1) \<Rightarrow>
                (True, putClassRelationship st1 child
                   (e\<lparr>root := (if addBefore then linkedListAddBefore (root e) i node
                                else linkedListAddLast (root e) node)\<rparr>)))))"

text \<open>\<^verbatim>\<open>j9bcv_recordClassRelationship\<close>: the result (\<^verbatim>\<open>TRUE\<close> or \<^verbatim>\<open>FALSE\<close>), the reason code
  and the state.\<close>

definition j9bcv_recordClassRelationship ::
  "state \<Rightarrow> string \<Rightarrow> string \<Rightarrow> bool \<times> reason_code \<times> state" where
  "j9bcv_recordClassRelationship st child parent =
     (let (allocateResult, st0) =
            (if classRelationshipsHashTable st = None
             then allocateClassRelationshipTableAndPool st else (0, st))
      in if allocateResult \<noteq> 0 then (False, BCV_ERR_INSUFFICIENT_MEMORY, st0)
         else
           (case findOrAddChildEntry st0 child of
              (None, st1) \<Rightarrow> (False, BCV_ERR_INSUFFICIENT_MEMORY, st1)
            | (Some e, st1) \<Rightarrow>
                (case addParent st1 child e parent of
                   (False, st2) \<Rightarrow> (False, BCV_ERR_INSUFFICIENT_MEMORY, st2)
                 | (True, st2) \<Rightarrow> (True, BCV_SUCCESS, st2))))"

text \<open>One round of the loop of \<^verbatim>\<open>j9bcv_validateClassRelationships\<close> over the parent
  nodes of the child's entry (lines 1040-1092), for the node with the given name: the class
  that fails, if any, and the state.\<close>

definition validateParent ::
  "J9JavaVM \<Rightarrow> J9Class \<Rightarrow> string \<Rightarrow> state \<Rightarrow> J9Class option \<times> state" where
  "validateParent vm childClass node st =
     (case hashClassTableAt vm node of
        None \<Rightarrow>
          (case findClassRelationship st node of
             None \<Rightarrow>
               (let (nameOk, st1) = allocate st in
                if \<not> nameOk then (Some childClass, st1)
                else
                  let (addOk, st2) = allocate st1 in
                  if \<not> addOk then (Some childClass, st2)
                  else (None, putClassRelationship st2 node
                                \<lparr>className = node, root = [],
                                 flags = J9RELATIONSHIP_MUST_BE_INTERFACE\<rparr>))
           | Some parentClassEntry \<Rightarrow>
               (None, putClassRelationship st node
                        (parentClassEntry\<lparr>flags :=
                           flags parentClassEntry OR J9RELATIONSHIP_MUST_BE_INTERFACE\<rparr>)))
      | Some parentClass \<Rightarrow>
          if romIsInterface parentClass then (None, st)
          else if isSameOrSuperClassOf vm parentClass childClass then (None, st)
          else (Some parentClass, st))"

text \<open>The loop: it runs down the list of nodes and stops at the first failure.\<close>

fun validateParents ::
  "J9JavaVM \<Rightarrow> J9Class \<Rightarrow> string list \<Rightarrow> state \<Rightarrow> J9Class option \<times> state" where
  "validateParents vm childClass [] st = (None, st)"
| "validateParents vm childClass (node # nodes) st =
     (case validateParent vm childClass node st of
        (Some failedClass, st1) \<Rightarrow> (Some failedClass, st1)
      | (None, st1) \<Rightarrow> validateParents vm childClass nodes st1)"

text \<open>\<^verbatim>\<open>freeClassRelationshipNodes\<close> on the entry under a name: every node goes back to
  the pool.\<close>

definition freeClassRelationshipNodes :: "state \<Rightarrow> string \<Rightarrow> state" where
  "freeClassRelationshipNodes st name =
     (case findClassRelationship st name of
        None \<Rightarrow> st
      | Some e \<Rightarrow>
          putClassRelationship
            (st\<lparr>classRelationshipsPool :=
                 map_option (\<lambda>n. n - length (root e)) (classRelationshipsPool st)\<rparr>)
            name (e\<lparr>root := []\<rparr>))"

text \<open>\<^verbatim>\<open>hashTableRemove\<close> of the entry under a name as line 1099 calls it, after line 1098
  has freed the name of the entry: the entry leaves the table when the lookup with the freed
  name finds it, and stays in the table, without its nodes, when the lookup misses. The table
  of the model keeps an entry that stays under the name it had.\<close>

definition hashTableRemove :: "J9JavaVM \<Rightarrow> state \<Rightarrow> string \<Rightarrow> state" where
  "hashTableRemove vm st name =
     (if findsFreedName vm name
      then st\<lparr>classRelationshipsHashTable :=
                map_option (\<lambda>t. t(name := None)) (classRelationshipsHashTable st)\<rparr>
      else st)"

text \<open>\<^verbatim>\<open>j9bcv_validateClassRelationships\<close>: the class that fails validation (\<open>None\<close> for
  \<^verbatim>\<open>NULL\<close>) and the state.\<close>

definition j9bcv_validateClassRelationships ::
  "J9JavaVM \<Rightarrow> state \<Rightarrow> string \<Rightarrow> J9Class \<Rightarrow> abort + (J9Class option \<times> state)" where
  "j9bcv_validateClassRelationships vm st childClassName childClass =
     (case findClassRelationship st childClassName of
        None \<Rightarrow> Inr (None, st)
      | Some e \<Rightarrow>
          if J9_ARE_ANY_BITS_SET (flags e) J9RELATIONSHIP_MUST_BE_INTERFACE
             \<and> \<not> romIsInterface childClass
          then Inr (Some childClass, st)
          else if J9_ARE_ANY_BITS_SET (flags e) J9RELATIONSHIP_PARENT_CLASS_IS_THROWABLE
                  \<and> javaLangThrowable vm = None
          then Inl AssertionFailed
          else if J9_ARE_ANY_BITS_SET (flags e) J9RELATIONSHIP_PARENT_CLASS_IS_THROWABLE
                  \<and> \<not> isSameOrSuperClassOf vm (the (javaLangThrowable vm)) childClass
          then Inr (javaLangThrowable vm, st)
          else
            (case validateParents vm childClass (root e) st of
               (Some failedClass, st1) \<Rightarrow> Inr (Some failedClass, st1)
             | (None, st1) \<Rightarrow>
                 Inr (None, hashTableRemove vm (freeClassRelationshipNodes st1 childClassName)
                              childClassName)))"

section \<open>Class relationship snippets\<close>

text \<open>The entries of the snippet table, none while the table is \<^verbatim>\<open>NULL\<close>.\<close>

definition snippetEntries :: "state \<Rightarrow> (nat \<times> nat) list" where
  "snippetEntries st =
     (case classRelationshipSnippetsHashTable st of None \<Rightarrow> [] | Some entries \<Rightarrow> entries)"

text \<open>\<^verbatim>\<open>allocateClassRelationshipSnippetsHashTable\<close>.\<close>

definition allocateClassRelationshipSnippetsHashTable :: "state \<Rightarrow> reason_code \<times> state" where
  "allocateClassRelationshipSnippetsHashTable st =
     (let (tableOk, st1) = allocate st in
      if tableOk then (BCV_SUCCESS, st1\<lparr>classRelationshipSnippetsHashTable := Some []\<rparr>)
      else (BCV_ERR_INSUFFICIENT_MEMORY, st1\<lparr>classRelationshipSnippetsHashTable := None\<rparr>))"

text \<open>\<^verbatim>\<open>j9bcv_recordClassRelationshipSnippet\<close>: the result (\<^verbatim>\<open>TRUE\<close> or \<^verbatim>\<open>FALSE\<close>), the reason
  code and the state. A snippet is the pair of the indices of the child's and the parent's
  name in the class name list; \<^verbatim>\<open>relationshipSnippetHashEqualFn\<close> compares both indices.\<close>

definition j9bcv_recordClassRelationshipSnippet ::
  "state \<Rightarrow> nat \<Rightarrow> nat \<Rightarrow> bool \<times> reason_code \<times> state" where
  "j9bcv_recordClassRelationshipSnippet st childClassNameIndex parentClassNameIndex =
     (let (reasonCode, st0) =
            (if classRelationshipSnippetsHashTable st = None
             then allocateClassRelationshipSnippetsHashTable st else (BCV_SUCCESS, st))
      in if reasonCode \<noteq> BCV_SUCCESS then (False, reasonCode, st0)
         else if (childClassNameIndex, parentClassNameIndex) \<in> set (snippetEntries st0)
         then (False, BCV_SUCCESS, st0)
         else
           let (addOk, st1) = allocate st0 in
           if \<not> addOk then (False, BCV_ERR_INSUFFICIENT_MEMORY, st1)
           else (True, BCV_SUCCESS,
                 st1\<lparr>classRelationshipSnippetsHashTable :=
                       Some (snippetEntries st0 @ [(childClassNameIndex, parentClassNameIndex)])\<rparr>))"

text \<open>\<^verbatim>\<open>checkSnippetRelationship\<close>: the reason code and the state.\<close>

definition checkSnippetRelationship ::
  "J9JavaVM \<Rightarrow> state \<Rightarrow> string \<Rightarrow> string \<Rightarrow> reason_code \<times> state" where
  "checkSnippetRelationship vm st childClassName parentClassName =
     (case hashClassTableAt vm parentClassName of
        None \<Rightarrow>
          (case j9bcv_recordClassRelationship st childClassName parentClassName of
             (recordResult, reasonCode, st1) \<Rightarrow> (reasonCode, st1))
      | Some parentClass \<Rightarrow>
          if romIsInterface parentClass
          then (BCV_SUCCESS, st\<lparr>trace := trace st @ [ParentClassIsInterface parentClassName]\<rparr>)
          else
            (case hashClassTableAt vm childClassName of
               None \<Rightarrow>
                 (case j9bcv_recordClassRelationship st childClassName parentClassName of
                    (recordResult, reasonCode, st1) \<Rightarrow> (reasonCode, st1))
             | Some childClass \<Rightarrow>
                 if isSameOrSuperClassOf vm parentClass childClass
                 then (BCV_SUCCESS,
                       st\<lparr>trace := trace st @ [ParentClassIsSuperClass parentClassName]\<rparr>)
                 else (BCV_ERR_INTERNAL_ERROR,
                       st\<lparr>trace := trace st @ [InvalidRelationship parentClassName]\<rparr>)))"

text \<open>\<^verbatim>\<open>processClassRelationshipSnippetsNoCachedData\<close>, over the entries of the snippet table
  in the order the table gives them. \<open>classNameList\<close> is the class name list of the
  verification data as \<^verbatim>\<open>getNameAndLengthFromClassNameList\<close> reads it: the name at an index.
  The reason code comes in as the caller has set it and goes out as the last check left it.\<close>

fun processClassRelationshipSnippetsNoCachedData ::
  "J9JavaVM \<Rightarrow> (nat \<Rightarrow> string) \<Rightarrow> (nat \<times> nat) list \<Rightarrow> reason_code \<Rightarrow> state
     \<Rightarrow> reason_code \<times> state" where
  "processClassRelationshipSnippetsNoCachedData vm classNameList [] reasonCode st = (reasonCode, st)"
| "processClassRelationshipSnippetsNoCachedData vm classNameList (snippetEntry # entries) reasonCode st =
     (case checkSnippetRelationship vm st (classNameList (fst snippetEntry))
             (classNameList (snd snippetEntry)) of
        (reasonCode1, st1) \<Rightarrow>
          if reasonCode1 \<noteq> BCV_SUCCESS
          then (reasonCode1,
                st1\<lparr>trace := trace st1 @ [ErrorWhileProcessing (classNameList (fst snippetEntry))
                                            (classNameList (snd snippetEntry))]\<rparr>)
          else processClassRelationshipSnippetsNoCachedData vm classNameList entries reasonCode1 st1)"

section \<open>The data buffer of the shared cache\<close>

text \<open>Memory is a list of bytes; an address is an offset from the start of the buffer. A
  read or a write that leaves the buffer is not defined in C and is \<open>None\<close> here.\<close>

definition readBytes :: "string \<Rightarrow> nat \<Rightarrow> nat \<Rightarrow> string option" where
  "readBytes mem addr n = (if addr + n \<le> length mem then Some (take n (drop addr mem)) else None)"

definition writeBytes :: "string \<Rightarrow> nat \<Rightarrow> string \<Rightarrow> string option" where
  "writeBytes mem addr bs =
     (if addr + length bs \<le> length mem
      then Some (take addr mem @ bs @ drop (addr + length bs) mem) else None)"

text \<open>An unsigned integer of \<open>n\<close> bytes, least significant byte first; the value is cut to
  the \<open>n\<close> bytes, as a cast to the integer type of that size cuts it.\<close>

fun encodeLE :: "nat \<Rightarrow> nat \<Rightarrow> string" where
  "encodeLE 0 v = []"
| "encodeLE (Suc n) v = char_of (v mod 256) # encodeLE n (v div 256)"

fun decodeLE :: "string \<Rightarrow> nat" where
  "decodeLE [] = 0"
| "decodeLE (b # bs) = of_char b + 256 * decodeLE bs"

text \<open>Modelled from the spec: the sizes of the types and the macros of \<^verbatim>\<open>j9.h\<close> that the
  source uses by name, for a 64-bit little-endian platform. The header is one \<^verbatim>\<open>UDATA\<close>, a
  snippet is two \<^verbatim>\<open>J9SRP\<close>, a \<^verbatim>\<open>J9SRP\<close> is a signed 32-bit offset from its own address (0 for
  \<^verbatim>\<open>NULL\<close>), a \<^verbatim>\<open>J9UTF8\<close> is a \<^verbatim>\<open>U_16\<close> length followed by the bytes.\<close>

definition headerSize :: nat where "headerSize = 8"

definition snippetSize :: nat where "snippetSize = 8"

definition offsetToNextSRP :: nat where "offsetToNextSRP = 4"

definition SRP_PTR_SET :: "string \<Rightarrow> nat \<Rightarrow> nat \<Rightarrow> string option" where
  "SRP_PTR_SET mem ptr target =
     writeBytes mem ptr (encodeLE 4 (unat (word_of_int (int target - int ptr) :: 32 word)))"

definition SRP_GET :: "string \<Rightarrow> nat \<Rightarrow> abort + nat option" where
  "SRP_GET mem ptr =
     (case readBytes mem ptr 4 of
        None \<Rightarrow> Inl OutOfBounds
      | Some bs \<Rightarrow>
          if decodeLE bs = 0 then Inr None
          else
            let target = int ptr + sint (word_of_nat (decodeLE bs) :: 32 word)
            in if target < 0 then Inl OutOfBounds else Inr (Some (nat target)))"

text \<open>\<^verbatim>\<open>J9UTF8_LENGTH\<close> and \<^verbatim>\<open>J9UTF8_DATA\<close> at an address: the bytes of the name.\<close>

definition readUTF8 :: "string \<Rightarrow> nat \<Rightarrow> abort + string" where
  "readUTF8 mem addr =
     (case readBytes mem addr 2 of
        None \<Rightarrow> Inl OutOfBounds
      | Some len \<Rightarrow>
          (case readBytes mem (addr + 2) (decodeLE len) of
             None \<Rightarrow> Inl OutOfBounds
           | Some bytes \<Rightarrow> Inr bytes))"

text \<open>\<^verbatim>\<open>getTotalUTF8Size\<close>: the two lengths are \<^verbatim>\<open>U_16\<close> variables that take the length of
  the name plus one.\<close>

fun getTotalUTF8Size :: "(nat \<Rightarrow> string) \<Rightarrow> (nat \<times> nat) list \<Rightarrow> nat" where
  "getTotalUTF8Size classNameList [] = 0"
| "getTotalUTF8Size classNameList (snippetEntry # entries) =
     ((length (classNameList (fst snippetEntry)) + 1) mod 65536 + 2
      + (length (classNameList (snd snippetEntry)) + 1) mod 65536 + 2)
     + getTotalUTF8Size classNameList entries"

text \<open>The local variables of \<^verbatim>\<open>storeToDataBuffer\<close> that change while it runs. The array of
  class names holds pairs of a class name index and an address, its used slots first; the
  hash table of class names holds the addresses of the \<^verbatim>\<open>J9UTF8\<close> of its entries.\<close>

record store_locals =
  dataBuffer :: string
  srpAddress :: nat
  nextUTF8Address :: nat
  classNamesArray :: "(nat \<times> nat) list"
  classNamesHashTable :: "nat list"

text \<open>\<^verbatim>\<open>setCurrentAndNextUTF8s\<close>: the name goes to the next free address, with its length
  before it and a zero byte after it; the buffer and the size of what is stored.\<close>

definition setCurrentAndNextUTF8s ::
  "(nat \<Rightarrow> string) \<Rightarrow> store_locals \<Rightarrow> nat \<Rightarrow> string option \<times> nat" where
  "setCurrentAndNextUTF8s classNameList lo classNameIndex =
     (let name = classNameList classNameIndex in
      (writeBytes (dataBuffer lo) (nextUTF8Address lo)
         (encodeLE 2 (length name) @ name @ [char_of (0 :: nat)]),
       length name + 1 + 2))"

text \<open>\<^verbatim>\<open>getUTF8Address\<close>: the address of the name (\<open>None\<close> for \<^verbatim>\<open>NULL\<close>) and the locals.\<close>

definition getUTF8Address ::
  "(nat \<Rightarrow> string) \<Rightarrow> store_locals \<Rightarrow> state \<Rightarrow> nat
     \<Rightarrow> abort + (nat option \<times> store_locals \<times> state)" where
  "getUTF8Address classNameList lo st classNameIndex =
     (case setCurrentAndNextUTF8s classNameList lo classNameIndex of
        (None, utf8AddressSize) \<Rightarrow> Inl OutOfBounds
      | (Some mem, utf8AddressSize) \<Rightarrow>
          Inr (Some (nextUTF8Address lo),
               lo\<lparr>dataBuffer := mem,
                  nextUTF8Address := nextUTF8Address lo + utf8AddressSize\<rparr>, st))"

text \<open>\<^verbatim>\<open>getUTF8AddressFromArray\<close>: the scan of the first \<open>totalNumberOfIndices\<close> slots stops at
  the first free slot or at the slot of the index; a new entry goes to the slot where the
  scan stopped, which must be one of the \<open>arraySize\<close> slots of the array.\<close>

definition getUTF8AddressFromArray ::
  "(nat \<Rightarrow> string) \<Rightarrow> nat \<Rightarrow> nat \<Rightarrow> store_locals \<Rightarrow> state \<Rightarrow> nat
     \<Rightarrow> abort + (nat option \<times> store_locals \<times> state)" where
  "getUTF8AddressFromArray classNameList arraySize totalNumberOfIndices lo st classNameIndex =
     (case find (\<lambda>entry. fst entry = classNameIndex)
             (take totalNumberOfIndices (classNamesArray lo)) of
        Some entry \<Rightarrow> Inr (Some (snd entry), lo, st)
      | None \<Rightarrow>
          (let (entryOk, st1) = allocate st in
           if \<not> entryOk then Inr (None, lo, st1)
           else
             (case setCurrentAndNextUTF8s classNameList lo classNameIndex of
                (None, utf8AddressSize) \<Rightarrow> Inl OutOfBounds
              | (Some mem, utf8AddressSize) \<Rightarrow>
                  let i = min (length (classNamesArray lo)) totalNumberOfIndices in
                  if arraySize \<le> i then Inl OutOfBounds
                  else
                    Inr (Some (nextUTF8Address lo),
                         lo\<lparr>dataBuffer := mem,
                            classNamesArray :=
                              (if i < length (classNamesArray lo)
                               then (classNamesArray lo)[i := (classNameIndex, nextUTF8Address lo)]
                               else classNamesArray lo @ [(classNameIndex, nextUTF8Address lo)]),
                            nextUTF8Address := nextUTF8Address lo + utf8AddressSize\<rparr>, st1))))"

text \<open>The names at two addresses are equal by \<^verbatim>\<open>relationshipClassNameHashEqualFn\<close>.\<close>

definition utf8Equal :: "string \<Rightarrow> nat \<Rightarrow> nat \<Rightarrow> bool" where
  "utf8Equal mem a b = (case (readUTF8 mem a, readUTF8 mem b) of
                          (Inr x, Inr y) \<Rightarrow> x = y | _ \<Rightarrow> False)"

text \<open>\<^verbatim>\<open>getUTF8AddressFromHashTable\<close>: the name is written first, then looked up; when it is
  in the table already the bytes just written are cleared and the address of the table's
  entry is the result. \<^verbatim>\<open>hashTableAdd\<close> is asserted to succeed.\<close>

definition getUTF8AddressFromHashTable ::
  "(nat \<Rightarrow> string) \<Rightarrow> store_locals \<Rightarrow> state \<Rightarrow> nat
     \<Rightarrow> abort + (nat option \<times> store_locals \<times> state)" where
  "getUTF8AddressFromHashTable classNameList lo st classNameIndex =
     (case setCurrentAndNextUTF8s classNameList lo classNameIndex of
        (None, utf8AddressSize) \<Rightarrow> Inl OutOfBounds
      | (Some mem, utf8AddressSize) \<Rightarrow>
          (case find (\<lambda>entry. utf8Equal mem entry (nextUTF8Address lo)) (classNamesHashTable lo) of
             None \<Rightarrow>
               (let (addOk, st1) = allocate st in
                if \<not> addOk then Inl AssertionFailed
                else
                  Inr (Some (nextUTF8Address lo),
                       lo\<lparr>dataBuffer := mem,
                          classNamesHashTable := classNamesHashTable lo @ [nextUTF8Address lo],
                          nextUTF8Address := nextUTF8Address lo + utf8AddressSize\<rparr>, st1))
           | Some entry \<Rightarrow>
               (case writeBytes mem (nextUTF8Address lo)
                       (replicate utf8AddressSize (char_of (0 :: nat))) of
                  None \<Rightarrow> Inl OutOfBounds
                | Some cleared \<Rightarrow> Inr (Some entry, lo\<lparr>dataBuffer := cleared\<rparr>, st))))"

datatype snippet_config =
  J9RELATIONSHIP_SNIPPET_SINGLE | J9RELATIONSHIP_SNIPPET_USE_ARRAY | J9RELATIONSHIP_SNIPPET_USE_HASHTABLE

text \<open>The choice among the three by \<open>snippetConfig\<close>, as both places of the loop make it.\<close>

definition getClassUTF8Address ::
  "(nat \<Rightarrow> string) \<Rightarrow> snippet_config \<Rightarrow> nat \<Rightarrow> nat \<Rightarrow> store_locals \<Rightarrow> state \<Rightarrow> nat
     \<Rightarrow> abort + (nat option \<times> store_locals \<times> state)" where
  "getClassUTF8Address classNameList snippetConfig arraySize totalNumberOfIndices lo st classNameIndex =
     (if snippetConfig = J9RELATIONSHIP_SNIPPET_USE_HASHTABLE
      then getUTF8AddressFromHashTable classNameList lo st classNameIndex
      else if snippetConfig = J9RELATIONSHIP_SNIPPET_USE_ARRAY
      then getUTF8AddressFromArray classNameList arraySize totalNumberOfIndices lo st classNameIndex
      else getUTF8Address classNameList lo st classNameIndex)"

text \<open>The loop of \<^verbatim>\<open>storeToDataBuffer\<close> over the entries of the snippet table.\<close>

fun storeSnippets ::
  "(nat \<Rightarrow> string) \<Rightarrow> snippet_config \<Rightarrow> nat \<Rightarrow> nat \<Rightarrow> (nat \<times> nat) list \<Rightarrow> store_locals \<Rightarrow> state
     \<Rightarrow> abort + (reason_code \<times> store_locals \<times> state)" where
  "storeSnippets classNameList snippetConfig arraySize totalNumberOfIndices [] lo st = Inr (BCV_SUCCESS, lo, st)"
| "storeSnippets classNameList snippetConfig arraySize totalNumberOfIndices (snippetEntry # entries) lo st =
     (case getClassUTF8Address classNameList snippetConfig arraySize totalNumberOfIndices lo st (fst snippetEntry) of
        Inl a \<Rightarrow> Inl a
      | Inr (None, lo1, st1) \<Rightarrow> Inr (BCV_ERR_INSUFFICIENT_MEMORY, lo1, st1)
      | Inr (Some childClassUTF8Address, lo1, st1) \<Rightarrow>
          (case getClassUTF8Address classNameList snippetConfig arraySize totalNumberOfIndices lo1 st1
                  (snd snippetEntry) of
             Inl a \<Rightarrow> Inl a
           | Inr (None, lo2, st2) \<Rightarrow> Inr (BCV_ERR_INSUFFICIENT_MEMORY, lo2, st2)
           | Inr (Some parentClassUTF8Address, lo2, st2) \<Rightarrow>
               (case SRP_PTR_SET (dataBuffer lo2) (srpAddress lo2) childClassUTF8Address of
                  None \<Rightarrow> Inl OutOfBounds
                | Some mem1 \<Rightarrow>
                    (case SRP_PTR_SET mem1 (srpAddress lo2 + offsetToNextSRP)
                            parentClassUTF8Address of
                       None \<Rightarrow> Inl OutOfBounds
                     | Some mem2 \<Rightarrow>
                         storeSnippets classNameList snippetConfig arraySize totalNumberOfIndices entries
                           (lo2\<lparr>dataBuffer := mem2,
                                srpAddress := srpAddress lo2 + offsetToNextSRP + offsetToNextSRP\<rparr>)
                           st2))))"

text \<open>\<^verbatim>\<open>storeToDataBuffer\<close>, with \<^verbatim>\<open>J9RELATIONSHIP_SNIPPET_COUNT_THRESHOLD\<close> as \<open>threshold\<close>:
  the reason code, the buffer and the state. When \<^verbatim>\<open>hashTableNew\<close> fails, \<open>snippetConfig\<close> is
  \<^verbatim>\<open>J9RELATIONSHIP_SNIPPET_USE_HASHTABLE\<close> already (lines 567-573), so the exit of the function
  gives the \<^verbatim>\<open>NULL\<close> table to \<^verbatim>\<open>hashClassRelationshipClassNameTableFree\<close>, whose
  \<^verbatim>\<open>hashTableStartDo\<close> reads through it (lines 628-632, 821).\<close>

definition storeToDataBuffer ::
  "(nat \<Rightarrow> string) \<Rightarrow> nat \<Rightarrow> (nat \<times> nat) list \<Rightarrow> string \<Rightarrow> nat \<Rightarrow> nat \<Rightarrow> nat \<Rightarrow> state
     \<Rightarrow> abort + (reason_code \<times> string \<times> state)" where
  "storeToDataBuffer classNameList threshold entries buffer dataBufferSnippetStart
       dataBufferUTF8Start snippetCount st =
     (let lo = \<lparr>dataBuffer = buffer, srpAddress = dataBufferSnippetStart,
                nextUTF8Address = dataBufferUTF8Start, classNamesArray = [],
                classNamesHashTable = []\<rparr>;
          totalNumberOfIndices = snippetCount * 2;
          (tableOk, st1) = (if snippetCount \<noteq> 1 \<and> threshold < snippetCount
                            then allocate st else (True, st))
      in if \<not> tableOk then Inl NullDereference
         else
           (case storeSnippets classNameList
                   (if snippetCount = 1 then J9RELATIONSHIP_SNIPPET_SINGLE
                    else if threshold < snippetCount then J9RELATIONSHIP_SNIPPET_USE_HASHTABLE
                    else J9RELATIONSHIP_SNIPPET_USE_ARRAY)
                   (threshold * 2) totalNumberOfIndices entries lo st1 of
              Inl a \<Rightarrow> Inl a
            | Inr (storeResult, lo1, st2) \<Rightarrow> Inr (storeResult, dataBuffer lo1, st2)))"

text \<open>The shared classes cache as the functions use it: the data stored under a key for the
  type \<^verbatim>\<open>J9SHR_DATA_TYPE_CRVSNIPPET\<close>, and whether \<^verbatim>\<open>storeSharedData\<close> and
  \<^verbatim>\<open>findSharedData\<close> fail when they are called (\<^verbatim>\<open>NULL\<close> and -1).\<close>

record J9SharedClassConfig =
  sharedData :: "string \<rightharpoonup> string"
  storeSharedDataFails :: bool
  findSharedDataFails :: bool

text \<open>\<^verbatim>\<open>j9bcv_storeClassRelationshipSnippetsToSharedCache\<close> for the ROM class of the given
  name, which is the key: the reason code, the cache and the state.\<close>

definition j9bcv_storeClassRelationshipSnippetsToSharedCache ::
  "(nat \<Rightarrow> string) \<Rightarrow> nat \<Rightarrow> string \<Rightarrow> J9SharedClassConfig \<Rightarrow> state
     \<Rightarrow> abort + (reason_code \<times> J9SharedClassConfig \<times> state)" where
  "j9bcv_storeClassRelationshipSnippetsToSharedCache classNameList threshold key cfg st =
     (let entries = snippetEntries st; snippetCount = length entries in
      if snippetCount = 0 then Inr (BCV_SUCCESS, cfg, st)
      else
        let (keyOk, st1) = allocate st in
        if \<not> keyOk then Inr (BCV_ERR_INTERNAL_ERROR, cfg, st1)
        else
          let snippetsSizeTotal = snippetCount * snippetSize;
              utf8SizeTotal = getTotalUTF8Size classNameList entries;
              dataBufferSize = headerSize + snippetsSizeTotal + utf8SizeTotal;
              (bufferOk, st2) = allocate st1
          in if \<not> bufferOk then Inr (BCV_ERR_INSUFFICIENT_MEMORY, cfg, st2)
             else
               (case writeBytes (replicate dataBufferSize (char_of (0 :: nat))) 0
                       (encodeLE 8 snippetCount) of
                  None \<Rightarrow> Inl OutOfBounds
                | Some buffer \<Rightarrow>
                    (case storeToDataBuffer classNameList threshold entries buffer headerSize
                            (headerSize + snippetsSizeTotal) snippetCount st2 of
                       Inl a \<Rightarrow> Inl a
                     | Inr (storeResult, buffer1, st3) \<Rightarrow>
                         if storeResult = BCV_SUCCESS then
                           (if storeSharedDataFails cfg then Inr (BCV_ERR_INTERNAL_ERROR, cfg, st3)
                            else Inr (BCV_SUCCESS,
                                      cfg\<lparr>sharedData := (sharedData cfg)(key \<mapsto> buffer1)\<rparr>,
                                      st3))
                         else Inr (storeResult, cfg, st3))))"

text \<open>\<^verbatim>\<open>j9bcv_fetchClassRelationshipSnippetsFromSharedCache\<close>: whether snippets were found,
  the address in the data descriptor (\<open>None\<close> for \<^verbatim>\<open>NULL\<close>), the fetch result and the
  state.\<close>

definition j9bcv_fetchClassRelationshipSnippetsFromSharedCache ::
  "string \<Rightarrow> J9SharedClassConfig \<Rightarrow> state \<Rightarrow> bool \<times> string option \<times> reason_code \<times> state" where
  "j9bcv_fetchClassRelationshipSnippetsFromSharedCache key cfg st =
     (let (keyOk, st1) = allocate st in
      if \<not> keyOk then (False, None, BCV_ERR_INTERNAL_ERROR, st1)
      else if findSharedDataFails cfg then (False, None, BCV_ERR_INTERNAL_ERROR, st1)
      else
        (case sharedData cfg key of
           Some blob \<Rightarrow> (True, Some blob, BCV_SUCCESS, st1)
         | None \<Rightarrow> (False, None, BCV_SUCCESS, st1)))"

text \<open>Lines 201-209 of \<^verbatim>\<open>processClassRelationshipSnippetsUsingCachedData\<close>: the names of
  the child and the parent of snippet number \<open>i\<close> of the cached data.\<close>

definition decodeSnippet :: "string \<Rightarrow> nat \<Rightarrow> abort + (string \<times> string)" where
  "decodeSnippet blob i =
     (case SRP_GET blob (headerSize + i * snippetSize) of
        Inl a \<Rightarrow> Inl a
      | Inr None \<Rightarrow> Inl AssertionFailed
      | Inr (Some childClassUTF8) \<Rightarrow>
          (case SRP_GET blob (headerSize + i * snippetSize + offsetToNextSRP) of
             Inl a \<Rightarrow> Inl a
           | Inr None \<Rightarrow> Inl AssertionFailed
           | Inr (Some parentClassUTF8) \<Rightarrow>
               (case readUTF8 blob childClassUTF8 of
                  Inl a \<Rightarrow> Inl a
                | Inr childClassName \<Rightarrow>
                    (case readUTF8 blob parentClassUTF8 of
                       Inl a \<Rightarrow> Inl a
                     | Inr parentClassName \<Rightarrow> Inr (childClassName, parentClassName)))))"

text \<open>The loop of \<^verbatim>\<open>processClassRelationshipSnippetsUsingCachedData\<close> from snippet \<open>i\<close>,
  with the number of snippets that are left.\<close>

fun processCachedSnippets ::
  "J9JavaVM \<Rightarrow> string \<Rightarrow> nat \<Rightarrow> nat \<Rightarrow> reason_code \<Rightarrow> state \<Rightarrow> abort + (reason_code \<times> state)" where
  "processCachedSnippets vm blob 0 i reasonCode st = Inr (reasonCode, st)"
| "processCachedSnippets vm blob (Suc left) i reasonCode st =
     (case decodeSnippet blob i of
        Inl a \<Rightarrow> Inl a
      | Inr (childClassName, parentClassName) \<Rightarrow>
          (case checkSnippetRelationship vm st childClassName parentClassName of
             (reasonCode1, st1) \<Rightarrow>
               if reasonCode1 \<noteq> BCV_SUCCESS
               then Inr (reasonCode1,
                         st1\<lparr>trace := trace st1 @ [ErrorWhileProcessing childClassName
                                                     parentClassName]\<rparr>)
               else processCachedSnippets vm blob left (Suc i) reasonCode1 st1))"

definition processClassRelationshipSnippetsUsingCachedData ::
  "J9JavaVM \<Rightarrow> string \<Rightarrow> reason_code \<Rightarrow> state \<Rightarrow> abort + (reason_code \<times> state)" where
  "processClassRelationshipSnippetsUsingCachedData vm blob reasonCode st =
     (case readBytes blob 0 headerSize of
        None \<Rightarrow> Inl OutOfBounds
      | Some header \<Rightarrow> processCachedSnippets vm blob (decodeLE header) 0 reasonCode st)"

text \<open>\<^verbatim>\<open>j9bcv_processClassRelationshipSnippets\<close>, with the address of the data descriptor.\<close>

definition j9bcv_processClassRelationshipSnippets ::
  "J9JavaVM \<Rightarrow> (nat \<Rightarrow> string) \<Rightarrow> string option \<Rightarrow> state \<Rightarrow> abort + (reason_code \<times> state)" where
  "j9bcv_processClassRelationshipSnippets vm classNameList snippetsDataDescriptorAddress st =
     (case snippetsDataDescriptorAddress of
        Some blob \<Rightarrow> processClassRelationshipSnippetsUsingCachedData vm blob BCV_SUCCESS st
      | None \<Rightarrow>
          (case classRelationshipSnippetsHashTable st of
             None \<Rightarrow> Inr (BCV_SUCCESS, st)
           | Some entries \<Rightarrow>
               (case processClassRelationshipSnippetsNoCachedData vm classNameList entries
                       BCV_SUCCESS st of
                  (processResult, st1) \<Rightarrow>
                    Inr (processResult, st1\<lparr>classRelationshipSnippetsHashTable := None\<rparr>))))"

text \<open>The pairs of names that the cached data holds: what the loop over the cached data
  decodes, snippet by snippet, when it runs to the end.\<close>

fun decodeSnippetsFrom :: "string \<Rightarrow> nat \<Rightarrow> nat \<Rightarrow> abort + (string \<times> string) list" where
  "decodeSnippetsFrom blob 0 i = Inr []"
| "decodeSnippetsFrom blob (Suc left) i =
     (case decodeSnippet blob i of
        Inl a \<Rightarrow> Inl a
      | Inr names \<Rightarrow>
          (case decodeSnippetsFrom blob left (Suc i) of
             Inl a \<Rightarrow> Inl a
           | Inr rest \<Rightarrow> Inr (names # rest)))"

definition cachedSnippets :: "string \<Rightarrow> abort + (string \<times> string) list" where
  "cachedSnippets blob =
     (case readBytes blob 0 headerSize of
        None \<Rightarrow> Inl OutOfBounds
      | Some header \<Rightarrow> decodeSnippetsFrom blob (decodeLE header) 0)"

text \<open>A sequence of calls of \<^verbatim>\<open>j9bcv_recordClassRelationshipSnippet\<close>, as a verification pass
  makes them: the reason code of every call and the state after the last.\<close>

fun recordSnippets :: "state \<Rightarrow> (nat \<times> nat) list \<Rightarrow> reason_code list \<times> state" where
  "recordSnippets st [] = ([], st)"
| "recordSnippets st (request # requests) =
     (case j9bcv_recordClassRelationshipSnippet st (fst request) (snd request) of
        (recordResult, reasonCode, st1) \<Rightarrow>
          (case recordSnippets st1 requests of
             (reasonCodes, st2) \<Rightarrow> (reasonCode # reasonCodes, st2)))"

section \<open>The verification pass around the cache\<close>

text \<open>Modelled from the spec: the verification pass of one class around the cache. The
  verifier's code that calls \<^verbatim>\<open>j9bcv_fetchClassRelationshipSnippetsFromSharedCache\<close>,
  \<^verbatim>\<open>j9bcv_recordClassRelationshipSnippet\<close>,
  \<^verbatim>\<open>j9bcv_storeClassRelationshipSnippetsToSharedCache\<close> and
  \<^verbatim>\<open>j9bcv_processClassRelationshipSnippets\<close> is not among the source files. By the spec,
  snippets that are found in the cache are processed from the cached data; a failure to find
  or to store them is a soft condition and the pass goes on with the local table, which is
  serialized and then destroyed at the end of the pass; a failed allocation is propagated and
  aborts the pass. \<open>requests\<close> are the relationships that the pass records; the result is the
  reason code of the pass, the cache and the state.\<close>

definition verifyClassRelationshipSnippets ::
  "J9JavaVM \<Rightarrow> (nat \<Rightarrow> string) \<Rightarrow> nat \<Rightarrow> string \<Rightarrow> (nat \<times> nat) list \<Rightarrow> J9SharedClassConfig \<Rightarrow> state
     \<Rightarrow> abort + (reason_code \<times> J9SharedClassConfig \<times> state)" where
  "verifyClassRelationshipSnippets vm classNameList threshold key requests cfg st =
     (case j9bcv_fetchClassRelationshipSnippetsFromSharedCache key cfg st of
        (foundSnippets, snippetsDataDescriptorAddress, fetchResult, st1) \<Rightarrow>
          if foundSnippets then
            (case j9bcv_processClassRelationshipSnippets vm classNameList
                    snippetsDataDescriptorAddress st1 of
               Inl a \<Rightarrow> Inl a
             | Inr (processResult, st2) \<Rightarrow> Inr (processResult, cfg, st2))
          else
            (case recordSnippets st1 requests of
               (reasonCodes, st2) \<Rightarrow>
                 if BCV_ERR_INSUFFICIENT_MEMORY \<in> set reasonCodes
                 then Inr (BCV_ERR_INSUFFICIENT_MEMORY, cfg, st2)
                 else
                   (case j9bcv_storeClassRelationshipSnippetsToSharedCache classNameList threshold
                           key cfg st2 of
                      Inl a \<Rightarrow> Inl a
                    | Inr (storeResult, cfg1, st3) \<Rightarrow>
                        if storeResult = BCV_ERR_INSUFFICIENT_MEMORY
                        then Inr (BCV_ERR_INSUFFICIENT_MEMORY, cfg1, st3)
                        else
                          (case j9bcv_processClassRelationshipSnippets vm classNameList None st3 of
                             Inl a \<Rightarrow> Inl a
                           | Inr (processResult, st4) \<Rightarrow> Inr (processResult, cfg1, st4)))))"

section \<open>Properties of the table: what the theorems speak about\<close>

text \<open>A class loader before its first relationship is recorded, with memory for every
  request.\<close>

definition initialState :: state where
  "initialState =
     \<lparr>allocs = [], classRelationshipsHashTable = None, classRelationshipsPool = None,
      classRelationshipSnippetsHashTable = None, trace = []\<rparr>"

text \<open>The number of parent nodes that are allocated from the pool.\<close>

definition nodeCount :: "state \<Rightarrow> nat" where
  "nodeCount st = (case classRelationshipsPool st of None \<Rightarrow> 0 | Some n \<Rightarrow> n)"

text \<open>A sequence of parent nodes in the order the walk relies on: names never get shorter
  from head to tail, and no name occurs twice.\<close>

definition parentsOrdered :: "string list \<Rightarrow> bool" where
  "parentsOrdered xs = (sorted_wrt (\<lambda>a b. length a \<le> length b) xs \<and> distinct xs)"

definition storeOrdered :: "state \<Rightarrow> bool" where
  "storeOrdered st =
     (\<forall>name e. findClassRelationship st name = Some e \<longrightarrow> parentsOrdered (root e))"

definition noThrowableNode :: "state \<Rightarrow> bool" where
  "noThrowableNode st =
     (\<forall>name e. findClassRelationship st name = Some e \<longrightarrow>
        J9RELATIONSHIP_JAVA_LANG_THROWABLE_STRING \<notin> set (root e))"

text \<open>An entry with an obligation that is still pending: a parent node or one of the two
  flags.\<close>

definition entryPending :: "J9ClassRelationship \<Rightarrow> bool" where
  "entryPending e =
     (root e \<noteq> [] \<or> J9_ARE_ANY_BITS_SET (flags e) J9RELATIONSHIP_MUST_BE_INTERFACE
      \<or> J9_ARE_ANY_BITS_SET (flags e) J9RELATIONSHIP_PARENT_CLASS_IS_THROWABLE)"

definition allPending :: "state \<Rightarrow> bool" where
  "allPending st = (\<forall>name e. findClassRelationship st name = Some e \<longrightarrow> entryPending e)"

text \<open>The child's entry once a parent is recorded in it: what lines 926-979 of
  \<^verbatim>\<open>j9bcv_recordClassRelationship\<close> store when no allocation fails.\<close>

definition entryAfterRecord :: "J9ClassRelationship \<Rightarrow> string \<Rightarrow> J9ClassRelationship" where
  "entryAfterRecord e parent =
     (if parent = J9RELATIONSHIP_JAVA_LANG_THROWABLE_STRING
      then e\<lparr>flags := flags e OR J9RELATIONSHIP_PARENT_CLASS_IS_THROWABLE\<rparr>
      else if root e = [] then e\<lparr>root := [parent]\<rparr>
      else (case walkParents (root e) parent 0 of
              (True, ab, i) \<Rightarrow> e
            | (False, ab, i) \<Rightarrow>
                e\<lparr>root := (if ab then linkedListAddBefore (root e) i parent
                             else linkedListAddLast (root e) parent)\<rparr>))"

text \<open>How the walk of \<^verbatim>\<open>j9bcv_validateClassRelationships\<close> may change the table: an
  entry keeps its nodes and gets at most the flag \<^verbatim>\<open>J9RELATIONSHIP_MUST_BE_INTERFACE\<close>; a name
  without an entry gets at most an entry with that flag and no node.\<close>

definition grows :: "state \<Rightarrow> state \<Rightarrow> bool" where
  "grows st st' =
     (classRelationshipsPool st' = classRelationshipsPool st
      \<and> classRelationshipSnippetsHashTable st' = classRelationshipSnippetsHashTable st
      \<and> trace st' = trace st
      \<and> (classRelationshipsHashTable st' = None) = (classRelationshipsHashTable st = None)
      \<and> (\<forall>n. case findClassRelationship st n of
               None \<Rightarrow> findClassRelationship st' n = None \<or>
                         findClassRelationship st' n =
                           Some \<lparr>className = n, root = [], flags = J9RELATIONSHIP_MUST_BE_INTERFACE\<rparr>
             | Some e \<Rightarrow> findClassRelationship st' n = Some e \<or>
                  findClassRelationship st' n =
                    Some (e\<lparr>flags := flags e OR J9RELATIONSHIP_MUST_BE_INTERFACE\<rparr>)))"

text \<open>The two flag checks of \<^verbatim>\<open>j9bcv_validateClassRelationships\<close> (lines 1012-1035) let
  the validation of the child go on to the walk over its parent nodes.\<close>

definition flagChecksPass :: "J9JavaVM \<Rightarrow> J9ClassRelationship \<Rightarrow> J9Class \<Rightarrow> bool" where
  "flagChecksPass vm e childClass =
     ((J9_ARE_ANY_BITS_SET (flags e) J9RELATIONSHIP_MUST_BE_INTERFACE \<longrightarrow> romIsInterface childClass)
      \<and> (J9_ARE_ANY_BITS_SET (flags e) J9RELATIONSHIP_PARENT_CLASS_IS_THROWABLE \<longrightarrow>
           (\<exists>t. javaLangThrowable vm = Some t \<and> isSameOrSuperClassOf vm t childClass)))"

text \<open>A sequence of calls of \<^verbatim>\<open>j9bcv_recordClassRelationship\<close> for one child that all
  succeed; \<open>None\<close> when one of them fails.\<close>

fun recordAll :: "state \<Rightarrow> string \<Rightarrow> string list \<Rightarrow> state option" where
  "recordAll st child [] = Some st"
| "recordAll st child (parent # parents) =
     (case j9bcv_recordClassRelationship st child parent of
        (True, rc, st') \<Rightarrow> recordAll st' child parents
      | (False, rc, st') \<Rightarrow> None)"

text \<open>The states of a class loader's table between operations: it starts without a table
  and without a pool, and every call of \<^verbatim>\<open>j9bcv_recordClassRelationship\<close> and of
  \<^verbatim>\<open>j9bcv_validateClassRelationships\<close> that returns, whatever it returns and whatever is
  loaded by then, leads to the next state.\<close>

inductive reachable :: "state \<Rightarrow> bool" where
  reachable_init:
    "classRelationshipsHashTable st = None \<Longrightarrow> classRelationshipsPool st = None
     \<Longrightarrow> reachable st"
| reachable_record:
    "reachable st \<Longrightarrow> j9bcv_recordClassRelationship st child parent = (r, rc, st')
     \<Longrightarrow> reachable st'"
| reachable_validate:
    "reachable st \<Longrightarrow> j9bcv_validateClassRelationships vm st child childClass = Inr (failed, st')
     \<Longrightarrow> reachable st'"

definition lenle :: "string \<Rightarrow> string \<Rightarrow> bool" where
  "lenle a b = (length a \<le> length b)"

section \<open>The data buffer while it is filled\<close>

text \<open>The \<^verbatim>\<open>J9UTF8\<close> of a name stands at an address: its length, its bytes and a zero byte.\<close>

definition utf8At :: "string \<Rightarrow> nat \<Rightarrow> string \<Rightarrow> bool" where
  "utf8At mem a name =
     (readBytes mem a (length name + 3)
        = Some (encodeLE 2 (length name) @ name @ [char_of (0 :: nat)]))"

text \<open>Two memories of one size hold the same bytes from \<open>lo\<close> up to \<open>hi\<close>.\<close>

definition sameBytes :: "string \<Rightarrow> string \<Rightarrow> nat \<Rightarrow> nat \<Rightarrow> bool" where
  "sameBytes mem mem' lo hi =
     (length mem' = length mem
      \<and> (\<forall>b n. lo \<le> b \<and> b + n \<le> hi \<longrightarrow> readBytes mem' b n = readBytes mem b n))"

text \<open>What the round trip needs of the locals of \<^verbatim>\<open>storeToDataBuffer\<close>: every address that
  the array or the hash table of class names holds is the address of a \<^verbatim>\<open>J9UTF8\<close> in the
  part of the buffer between the start of the names and the next free address, and in the
  array it is the \<^verbatim>\<open>J9UTF8\<close> of the name at the entry's index.\<close>

definition goodLocals :: "(nat \<Rightarrow> string) \<Rightarrow> nat \<Rightarrow> store_locals \<Rightarrow> bool" where
  "goodLocals classNameList utf8Start lo =
     (utf8Start \<le> nextUTF8Address lo
      \<and> (\<forall>entry \<in> set (classNamesArray lo).
            utf8Start \<le> snd entry
            \<and> snd entry + length (classNameList (fst entry)) + 3 \<le> nextUTF8Address lo
            \<and> utf8At (dataBuffer lo) (snd entry) (classNameList (fst entry)))
      \<and> (\<forall>a \<in> set (classNamesHashTable lo).
            utf8Start \<le> a
            \<and> (\<exists>name. length name < 65536 \<and> a + length name + 3 \<le> nextUTF8Address lo
                 \<and> utf8At (dataBuffer lo) a name)))"

text \<open>What a call that gives the address of a name has done: the \<^verbatim>\<open>J9UTF8\<close> of the name at
  the index stands at the address that is returned, in the part of the buffer for the names;
  nothing below the old next free address has changed.\<close>

definition addressResult ::
  "(nat \<Rightarrow> string) \<Rightarrow> nat \<Rightarrow> nat \<Rightarrow> store_locals \<Rightarrow> nat \<Rightarrow> store_locals \<Rightarrow> bool" where
  "addressResult classNameList utf8Start classNameIndex lo a lo' =
     (goodLocals classNameList utf8Start lo' \<and> utf8Start \<le> a
      \<and> a + length (classNameList classNameIndex) + 3 \<le> nextUTF8Address lo'
      \<and> utf8At (dataBuffer lo') a (classNameList classNameIndex)
      \<and> nextUTF8Address lo \<le> nextUTF8Address lo'
      \<and> sameBytes (dataBuffer lo) (dataBuffer lo') 0 (nextUTF8Address lo)
      \<and> srpAddress lo' = srpAddress lo)"

text \<open>The snippet at an address of the buffer refers to the \<^verbatim>\<open>J9UTF8\<close> of two names.\<close>

definition snippetAt :: "string \<Rightarrow> nat \<Rightarrow> string \<Rightarrow> string \<Rightarrow> bool" where
  "snippetAt mem srp childName parentName =
     (\<exists>ca pa. SRP_GET mem srp = Inr (Some ca) \<and> SRP_GET mem (srp + 4) = Inr (Some pa)
        \<and> readUTF8 mem ca = Inr childName \<and> readUTF8 mem pa = Inr parentName)"

text \<open>What a call that finds or stores a name leaves of the locals when it succeeds.\<close>

definition addressStored :: "store_locals \<Rightarrow> store_locals \<Rightarrow> nat \<Rightarrow> bool" where
  "addressStored lo lo' n =
     (nextUTF8Address lo' \<le> nextUTF8Address lo + n + 3
      \<and> length (dataBuffer lo') = length (dataBuffer lo)
      \<and> srpAddress lo' = srpAddress lo
      \<and> length (classNamesArray lo') \<le> length (classNamesArray lo) + 1)"

text \<open>The state after some requests for memory and nothing else.\<close>

definition afterRequests :: "state \<Rightarrow> state \<Rightarrow> bool" where
  "afterRequests st st' = (\<exists>n. st' = st\<lparr>allocs := drop n (allocs st)\<rparr>)"

section \<open>Example classes and loaded-class tables\<close>

definition classThrowable :: J9Class where
  "classThrowable = \<lparr>romClassName = ''java/lang/Throwable'', romIsInterface = False\<rparr>"

definition classApp :: J9Class where
  "classApp = \<lparr>romClassName = ''App'', romIsInterface = False\<rparr>"

definition classBase :: J9Class where
  "classBase = \<lparr>romClassName = ''Base'', romIsInterface = False\<rparr>"

definition classSerializable :: J9Class where
  "classSerializable = \<lparr>romClassName = ''java/io/Serializable'', romIsInterface = True\<rparr>"

text \<open>A VM in which \<^verbatim>\<open>Base\<close>, \<^verbatim>\<open>java/io/Serializable\<close> and \<^verbatim>\<open>java/lang/Throwable\<close> are
  loaded and no class has a superclass but itself, and a VM in which nothing but
  \<^verbatim>\<open>java/lang/Throwable\<close> is known.\<close>

definition exampleVM :: J9JavaVM where
  "exampleVM =
     \<lparr>hashClassTableAt = map_of [(''Base'', classBase),
                                   (''java/io/Serializable'', classSerializable),
                                   (''java/lang/Throwable'', classThrowable)],
      isSameOrSuperClassOf = (=),
      javaLangThrowable = Some classThrowable,
      findsFreedName = (\<lambda>name. True)\<rparr>"

definition emptyVM :: J9JavaVM where
  "emptyVM =
     \<lparr>hashClassTableAt = Map.empty, isSameOrSuperClassOf = (=),
      javaLangThrowable = Some classThrowable,
      findsFreedName = (\<lambda>name. True)\<rparr>"

text \<open>A VM in which \<^verbatim>\<open>Base\<close> is loaded and is a superclass of every class, and in which the
  lookup of \<^verbatim>\<open>hashTableRemove\<close> with a freed name misses.\<close>

definition staleVM :: J9JavaVM where
  "staleVM =
     \<lparr>hashClassTableAt = map_of [(''Base'', classBase)],
      isSameOrSuperClassOf = (\<lambda>parentClass childClass. True),
      javaLangThrowable = Some classThrowable,
      findsFreedName = (\<lambda>name. False)\<rparr>"

definition stateAppBBase :: state where
  "stateAppBBase =
     \<lparr>allocs = [],
      classRelationshipsHashTable =
        Some [''App'' \<mapsto> \<lparr>className = ''App'', root = [''B'', ''Base''], flags = 0\<rparr>],
      classRelationshipsPool = Some 2, classRelationshipSnippetsHashTable = None, trace = []\<rparr>"

definition stateAppBase :: state where
  "stateAppBase =
     \<lparr>allocs = [],
      classRelationshipsHashTable =
        Some [''App'' \<mapsto> \<lparr>className = ''App'', root = [''Base''], flags = 0\<rparr>],
      classRelationshipsPool = Some 1, classRelationshipSnippetsHashTable = None, trace = []\<rparr>"

definition stateBaseInterface :: state where
  "stateBaseInterface =
     \<lparr>allocs = [],
      classRelationshipsHashTable =
        Some [''Base'' \<mapsto> \<lparr>className = ''Base'', root = [],
                                flags = J9RELATIONSHIP_MUST_BE_INTERFACE\<rparr>],
      classRelationshipsPool = Some 0, classRelationshipSnippetsHashTable = None, trace = []\<rparr>"

definition stateXThrowable :: state where
  "stateXThrowable =
     \<lparr>allocs = [],
      classRelationshipsHashTable =
        Some [''X'' \<mapsto> \<lparr>className = ''X'', root = [],
                             flags = J9RELATIONSHIP_PARENT_CLASS_IS_THROWABLE\<rparr>],
      classRelationshipsPool = Some 0, classRelationshipSnippetsHashTable = None, trace = []\<rparr>"

definition stateXBoth :: state where
  "stateXBoth =
     \<lparr>allocs = [],
      classRelationshipsHashTable =
        Some [''X'' \<mapsto> \<lparr>className = ''X'', root = [],
                             flags = J9RELATIONSHIP_PARENT_CLASS_IS_THROWABLE
                                       OR J9RELATIONSHIP_MUST_BE_INTERFACE\<rparr>],
      classRelationshipsPool = Some 0, classRelationshipSnippetsHashTable = None, trace = []\<rparr>"

definition classX :: J9Class where
  "classX = \<lparr>romClassName = ''X'', romIsInterface = False\<rparr>"

definition stateAppEmpty :: state where
  "stateAppEmpty =
     \<lparr>allocs = [],
      classRelationshipsHashTable =
        Some [''App'' \<mapsto> \<lparr>className = ''App'', root = [], flags = 0\<rparr>],
      classRelationshipsPool = Some 0, classRelationshipSnippetsHashTable = None, trace = []\<rparr>"

definition exampleBlob :: string where
  "exampleBlob =
     encodeLE 8 1 @ encodeLE 4 8 @ encodeLE 4 10
     @ encodeLE 2 3 @ ''App'' @ [char_of (0 :: nat)]
     @ encodeLE 2 4 @ ''Base'' @ [char_of (0 :: nat)]"

definition exampleNames :: "nat \<Rightarrow> string" where
  "exampleNames i = (if i = 0 then ''App'' else if i = 1 then ''Base'' else ''java/io/Serializable'')"

definition loadedVM :: J9JavaVM where
  "loadedVM =
     \<lparr>hashClassTableAt = map_of [(''App'', classApp), (''Base'', classBase),
                                   (''java/io/Serializable'', classSerializable)],
      isSameOrSuperClassOf = (=),
      javaLangThrowable = Some classThrowable,
      findsFreedName = (\<lambda>name. True)\<rparr>"

text \<open>A cache that holds nothing and takes what is stored, two snippet tables, and the data
  that is stored for the second.\<close>

definition emptyCache :: J9SharedClassConfig where
  "emptyCache = \<lparr>sharedData = Map.empty, storeSharedDataFails = False, findSharedDataFails = False\<rparr>"

definition snippetsOne :: state where
  "snippetsOne = initialState\<lparr>classRelationshipSnippetsHashTable := Some [(0, 1)]\<rparr>"

definition snippetsTwo :: state where
  "snippetsTwo = initialState\<lparr>classRelationshipSnippetsHashTable := Some [(0, 1), (0, 2)]\<rparr>"

definition exampleBlobTwo :: string where
  "exampleBlobTwo =
     encodeLE 8 2 @ encodeLE 4 16 @ encodeLE 4 18 @ encodeLE 4 8 @ encodeLE 4 17
     @ encodeLE 2 3 @ ''App'' @ [char_of (0 :: nat)]
     @ encodeLE 2 4 @ ''Base'' @ [char_of (0 :: nat)]
     @ encodeLE 2 20 @ ''java/io/Serializable'' @ [char_of (0 :: nat)]
     @ replicate 6 (char_of (0 :: nat))"

text \<open>A cache where every find and every store fails.\<close>

definition failingCache :: J9SharedClassConfig where
  "failingCache = \<lparr>sharedData = Map.empty, storeSharedDataFails = True, findSharedDataFails = True\<rparr>"

text \<open>A class name list with a name of 65535 bytes, the largest length of a \<^verbatim>\<open>J9UTF8\<close>.\<close>

definition longName :: string where
  "longName = replicate 65535 (CHR ''a'')"

definition longNames :: "nat \<Rightarrow> string" where
  "longNames i = (if i = 0 then longName else ''B'')"

section \<open>Lemmas on recording a relationship\<close>

lemma walkParents_pos:
  "snd (snd (walkParents xs p i)) = i + length (takeWhile (\<lambda>w. length w \<le> length p \<and> w \<noteq> p) xs)"
  by (induction xs arbitrary: i) auto

lemma walkParents_Nil:
  "dropWhile (\<lambda>w. length w \<le> length p \<and> w \<noteq> p) xs = [] \<Longrightarrow>
   fst (walkParents xs p i) = False \<and> fst (snd (walkParents xs p i)) = False"
  by (induction xs arbitrary: i) (auto split: if_splits)

lemma walkParents_Cons:
  "dropWhile (\<lambda>w. length w \<le> length p \<and> w \<noteq> p) xs = w # ws \<Longrightarrow>
   fst (walkParents xs p i) = (\<not> length p < length w) \<and>
   fst (snd (walkParents xs p i)) = (length p < length w) \<and> (length p < length w \<or> w = p)"
  by (induction xs arbitrary: i) (auto split: if_splits)

lemma insert_before_sorted:
  assumes "sorted_wrt lenle (as @ w # ws)" "distinct (as @ w # ws)"
    and "\<forall>a \<in> set as. length a \<le> length p \<and> a \<noteq> p" "length p < length w"
  shows "sorted_wrt lenle (as @ p # w # ws) \<and> distinct (as @ p # w # ws)"
proof -
  have big: "\<forall>v \<in> set (w # ws). length p < length v"
    using assms(1,4) by (auto simp: sorted_wrt_append lenle_def)
  have "sorted_wrt lenle (as @ p # w # ws)"
    using assms(1,3) big by (auto simp: sorted_wrt_append lenle_def)
  moreover have "distinct (as @ p # w # ws)"
    using assms(2,3) big by auto
  ultimately show ?thesis by simp
qed

lemma insert_sorted:
  assumes "sorted_wrt lenle xs" "distinct xs"
    and "walkParents xs p 0 = (False, ab, i)"
  shows "sorted_wrt lenle (if ab then linkedListAddBefore xs i p else linkedListAddLast xs p)
       \<and> distinct (if ab then linkedListAddBefore xs i p else linkedListAddLast xs p)"
proof -
  let ?P = "\<lambda>w. length w \<le> length p \<and> w \<noteq> p"
  define as where "as = takeWhile ?P xs"
  have split: "xs = as @ dropWhile ?P xs" by (simp add: as_def)
  have tk: "\<forall>w \<in> set as. length w \<le> length p \<and> w \<noteq> p"
    by (auto simp: as_def dest: set_takeWhileD)
  show ?thesis
  proof (cases "dropWhile ?P xs")
    case Nil
    then have all: "\<forall>w \<in> set xs. ?P w" by (simp add: dropWhile_eq_Nil_conv)
    from walkParents_Nil[OF Nil, of 0] assms(3) have "\<not> ab" by simp
    with all assms(1,2) show ?thesis
      by (auto simp: linkedListAddLast_def sorted_wrt_append lenle_def)
  next
    case (Cons w ws)
    from walkParents_Cons[OF Cons, of 0] assms(3) have ab: "ab" and lt: "length p < length w"
      by auto
    from walkParents_pos[of xs p 0] assms(3) have i: "i = length as"
      by (simp add: as_def)
    have xs: "xs = as @ w # ws" using split Cons by simp
    have ins: "linkedListAddBefore xs i p = as @ p # w # ws"
      unfolding linkedListAddBefore_def i by (subst (1 2) xs) simp
    from insert_before_sorted[of as w ws p] assms(1,2) tk lt xs
    have "sorted_wrt lenle (as @ p # w # ws) \<and> distinct (as @ p # w # ws)" by simp
    then show ?thesis using ab ins by simp
  qed
qed

lemma walk_present:
  assumes "sorted_wrt lenle xs" "p \<in> set xs"
  shows "fst (walkParents xs p i)"
  using assms
proof (induction xs arbitrary: i)
  case Nil
  then show ?case by simp
next
  case (Cons a xs)
  then show ?case by (auto simp: lenle_def)
qed

lemma allocateE:
  "allocate st = (b, st') \<Longrightarrow> \<exists>as. st' = st\<lparr>allocs := as\<rparr>"
proof (cases "allocs st")
  case Nil
  assume "allocate st = (b, st')"
  with Nil have "st' = st\<lparr>allocs := []\<rparr>" by (simp add: allocate_def)
  then show ?thesis by blast
next
  case (Cons x xs)
  assume "allocate st = (b, st')"
  with Cons have "st' = st\<lparr>allocs := xs\<rparr>" by (auto simp: allocate_def)
  then show ?thesis by blast
qed

lemma put_fields [simp]:
  "classRelationshipsHashTable (putClassRelationship st n e) =
     map_option (\<lambda>t. t(n \<mapsto> e)) (classRelationshipsHashTable st)"
  "classRelationshipsPool (putClassRelationship st n e) = classRelationshipsPool st"
  "allocs (putClassRelationship st n e) = allocs st"
  "classRelationshipSnippetsHashTable (putClassRelationship st n e) = classRelationshipSnippetsHashTable st"
  "trace (putClassRelationship st n e) = trace st"
  by (auto simp: putClassRelationship_def split: option.splits)

lemma allocTable_result:
  assumes "allocateClassRelationshipTableAndPool st = (r, st')"
  shows "(if r = 0 then classRelationshipsHashTable st' = Some Map.empty \<and> classRelationshipsPool st' = Some 0
          else classRelationshipsHashTable st' = classRelationshipsHashTable st \<or>
               classRelationshipsHashTable st' = Some Map.empty)
       \<and> classRelationshipSnippetsHashTable st' = classRelationshipSnippetsHashTable st
       \<and> trace st' = trace st"
  using assms
  by (auto simp: allocateClassRelationshipTableAndPool_def Let_def
           split: prod.splits if_splits option.splits dest!: allocateE)

lemma allocNode_result:
  assumes "allocateClassRelationshipNode st name = (r, st')"
  shows "classRelationshipsHashTable st' = classRelationshipsHashTable st
       \<and> classRelationshipSnippetsHashTable st' = classRelationshipSnippetsHashTable st
       \<and> trace st' = trace st
       \<and> (case r of None \<Rightarrow> classRelationshipsPool st' = classRelationshipsPool st
           | Some node \<Rightarrow> node = name \<and> (\<exists>k. classRelationshipsPool st = Some k \<and> classRelationshipsPool st' = Some (Suc k)))"
  using assms
  by (auto simp: allocateClassRelationshipNode_def Let_def
           split: prod.splits if_splits option.splits dest!: allocateE)

lemma findOrAdd_result:
  assumes "findOrAddChildEntry st child = (r, st')"
    and "classRelationshipsHashTable st = Some t"
  shows "classRelationshipsPool st' = classRelationshipsPool st
       \<and> classRelationshipSnippetsHashTable st' = classRelationshipSnippetsHashTable st
       \<and> trace st' = trace st
       \<and> (case r of None \<Rightarrow> classRelationshipsHashTable st' = Some t
           | Some e \<Rightarrow> classRelationshipsHashTable st' = Some (t(child \<mapsto> e)) \<and>
               (t child = Some e \<and> st' = st \<or>
                t child = None \<and> e = \<lparr>className = child, root = [], flags = 0\<rparr>))"
  using assms
  by (auto simp: findOrAddChildEntry_def Let_def findClassRelationship_def
           split: prod.splits if_splits option.splits dest!: allocateE)

lemma addParent_result:
  assumes "addParent st child e parent = (r, st')"
    and "classRelationshipsHashTable st = Some t"
  shows "classRelationshipSnippetsHashTable st' = classRelationshipSnippetsHashTable st
       \<and> trace st' = trace st
       \<and> (\<not> r \<longrightarrow> classRelationshipsHashTable st' = Some t
                 \<and> classRelationshipsPool st' = classRelationshipsPool st)
       \<and> (r \<longrightarrow>
            (if parent = J9RELATIONSHIP_JAVA_LANG_THROWABLE_STRING then
               classRelationshipsPool st' = classRelationshipsPool st \<and>
               (if J9_ARE_ANY_BITS_SET (flags e) J9RELATIONSHIP_PARENT_CLASS_IS_THROWABLE then st' = st
                else classRelationshipsHashTable st' =
                       Some (t(child \<mapsto> e\<lparr>flags := flags e OR J9RELATIONSHIP_PARENT_CLASS_IS_THROWABLE\<rparr>)))
             else if root e = [] then
               classRelationshipsHashTable st' = Some (t(child \<mapsto> e\<lparr>root := [parent]\<rparr>))
             else
               (case walkParents (root e) parent 0 of
                  (True, ab, i) \<Rightarrow> st' = st
                | (False, ab, i) \<Rightarrow>
                    classRelationshipsHashTable st' =
                      Some (t(child \<mapsto> e\<lparr>root := (if ab then linkedListAddBefore (root e) i parent
                                        else linkedListAddLast (root e) parent)\<rparr>)))))"
proof (cases "parent = J9RELATIONSHIP_JAVA_LANG_THROWABLE_STRING")
  case True
  with assms show ?thesis
    by (auto simp: addParent_def split: if_splits)
next
  case False
  note np = this
  show ?thesis
  proof (cases "root e = []")
    case True
    with np assms show ?thesis
      by (auto simp: addParent_def linkedListAddLast_def
            split: prod.splits option.splits dest!: allocNode_result)
  next
    case False
    obtain ap ab i where w: "walkParents (root e) parent 0 = (ap, ab, i)"
      by (cases "walkParents (root e) parent 0") auto
    with np False assms show ?thesis
      by (cases ap) (auto simp: addParent_def
            split: prod.splits option.splits dest!: allocNode_result)
  qed
qed

lemma and2: "((fl::32 word) AND 2 \<noteq> 0) = bit fl 1"
  using and_exp_eq_0_iff_not_bit[of fl 1] by simp

lemma and1: "((fl::32 word) AND 1 \<noteq> 0) = bit fl 0"
  using and_exp_eq_0_iff_not_bit[of fl 0] by simp

lemma or_bit_absorb:
  "J9_ARE_ANY_BITS_SET fl J9RELATIONSHIP_PARENT_CLASS_IS_THROWABLE \<Longrightarrow>
   fl OR J9RELATIONSHIP_PARENT_CLASS_IS_THROWABLE = fl"
  unfolding J9_ARE_ANY_BITS_SET_def J9RELATIONSHIP_PARENT_CLASS_IS_THROWABLE_def and2
  by (rule bit_word_eqI) (auto simp: bit_simps)


lemma addParent_table:
  assumes "addParent st child e parent = (True, st')"
    and "classRelationshipsHashTable st = Some t" and "t child = Some e"
  shows "classRelationshipsHashTable st' = Some (t(child \<mapsto> entryAfterRecord e parent))"
proof -
  have same: "t(child \<mapsto> e) = t" using assms(3) by auto
  from addParent_result[OF assms(1,2)] same assms(2) show ?thesis
    by (auto simp: entryAfterRecord_def or_bit_absorb split: if_splits prod.splits bool.splits)
qed

lemma record_table_Some:
  assumes "j9bcv_recordClassRelationship st child parent = (r, rc, st')"
    and "classRelationshipsHashTable st = Some t"
  shows "rc = (if r then BCV_SUCCESS else BCV_ERR_INSUFFICIENT_MEMORY)
       \<and> classRelationshipSnippetsHashTable st' = classRelationshipSnippetsHashTable st
       \<and> trace st' = trace st
       \<and> (if r then classRelationshipsHashTable st' =
                Some (t(child \<mapsto> entryAfterRecord
                     (case t child of
                        None \<Rightarrow> \<lparr>className = child, root = [], flags = 0\<rparr> | Some e \<Rightarrow> e) parent))
            else classRelationshipsHashTable st' = Some t \<or>
                 t child = None \<and> classRelationshipsHashTable st' =
                     Some (t(child \<mapsto> \<lparr>className = child, root = [], flags = 0\<rparr>)))"
proof -
  obtain fe st1 where f: "findOrAddChildEntry st child = (fe, st1)"
    by (cases "findOrAddChildEntry st child") auto
  note F = findOrAdd_result[OF f assms(2)]
  show ?thesis
  proof (cases fe)
    case None
    with assms f F show ?thesis
      by (auto simp: j9bcv_recordClassRelationship_def)
  next
    case (Some e)
    obtain ar st2 where a: "addParent st1 child e parent = (ar, st2)"
      by (cases "addParent st1 child e parent") auto
    from F Some have t1: "classRelationshipsHashTable st1 = Some (t(child \<mapsto> e))" by simp
    note A = addParent_result[OF a t1]
    from assms f Some a have res: "r = ar" "st' = st2"
      "rc = (if ar then BCV_SUCCESS else BCV_ERR_INSUFFICIENT_MEMORY)"
      by (auto simp: j9bcv_recordClassRelationship_def split: bool.splits)
    show ?thesis
    proof (cases ar)
      case True
      from a True have a': "addParent st1 child e parent = (True, st2)" by simp
      from addParent_table[OF a' t1] have
        "classRelationshipsHashTable st2 = Some (t(child \<mapsto> entryAfterRecord e parent))" by simp
      moreover from F Some have "(case t child of None \<Rightarrow> \<lparr>className = child, root = [], flags = 0\<rparr> | Some e \<Rightarrow> e) = e"
        by auto
      ultimately show ?thesis using res True A F by simp
    next
      case False
      with res A F Some show ?thesis by auto
    qed
  qed
qed

lemma record_fresh:
  assumes "classRelationshipsHashTable st = None"
    and "allocateClassRelationshipTableAndPool st = (0, st0)"
  shows "j9bcv_recordClassRelationship st c p = j9bcv_recordClassRelationship st0 c p"
  using assms allocTable_result[OF assms(2)]
  by (simp add: j9bcv_recordClassRelationship_def)

lemma record_result:
  assumes "j9bcv_recordClassRelationship st child parent = (r, rc, st')"
  shows "rc = (if r then BCV_SUCCESS else BCV_ERR_INSUFFICIENT_MEMORY)
       \<and> classRelationshipSnippetsHashTable st' = classRelationshipSnippetsHashTable st
       \<and> trace st' = trace st
       \<and> (if r then classRelationshipsHashTable st' =
                Some ((case classRelationshipsHashTable st of None \<Rightarrow> Map.empty | Some t \<Rightarrow> t)
                  (child \<mapsto> entryAfterRecord
                     (case findClassRelationship st child of
                        None \<Rightarrow> \<lparr>className = child, root = [], flags = 0\<rparr> | Some e \<Rightarrow> e) parent))
            else (\<forall>n. findClassRelationship st' n = findClassRelationship st n \<or>
                (n = child \<and> findClassRelationship st child = None \<and>
                 findClassRelationship st' child = Some \<lparr>className = child, root = [], flags = 0\<rparr>)))"
proof (cases "classRelationshipsHashTable st")
  case (Some t)
  from record_table_Some[OF assms Some] Some show ?thesis
    by (auto simp: findClassRelationship_def split: if_splits)
next
  case None
  obtain ar st0 where a: "allocateClassRelationshipTableAndPool st = (ar, st0)"
    by (cases "allocateClassRelationshipTableAndPool st") auto
  note A = allocTable_result[OF a]
  show ?thesis
  proof (cases "ar = 0")
    case True
    with a have a0: "allocateClassRelationshipTableAndPool st = (0, st0)" by simp
    from A True have t0: "classRelationshipsHashTable st0 = Some Map.empty" by simp
    from record_fresh[OF None a0] assms
    have "j9bcv_recordClassRelationship st0 child parent = (r, rc, st')" by simp
    from record_table_Some[OF this t0] None A show ?thesis
      by (auto simp: findClassRelationship_def split: if_splits)
  next
    case False
    with assms None a have "r = False" "rc = BCV_ERR_INSUFFICIENT_MEMORY" "st' = st0"
      by (auto simp: j9bcv_recordClassRelationship_def)
    with A False None show ?thesis
      by (auto simp: findClassRelationship_def)
  qed
qed

lemma entryAfterRecord_ordered:
  assumes "parentsOrdered (root e)"
  shows "parentsOrdered (root (entryAfterRecord e parent))"
proof -
  obtain ap ab i where w: "walkParents (root e) parent 0 = (ap, ab, i)"
    by (cases "walkParents (root e) parent 0") auto
  show ?thesis
  proof (cases ap)
    case True
    with w assms show ?thesis by (auto simp: entryAfterRecord_def parentsOrdered_def)
  next
    case False
    with w have w': "walkParents (root e) parent 0 = (False, ab, i)" by simp
    from insert_sorted[OF _ _ w'] assms
    have "parentsOrdered (if ab then linkedListAddBefore (root e) i parent else linkedListAddLast (root e) parent)"
      by (simp add: parentsOrdered_def lenle_def[abs_def])
    with w' assms show ?thesis
      by (auto simp: entryAfterRecord_def parentsOrdered_def)
  qed
qed

lemma record_storeOrdered:
  assumes "storeOrdered st" and "j9bcv_recordClassRelationship st child parent = (r, rc, st')"
  shows "storeOrdered st'"
proof -
  note R = record_result[OF assms(2)]
  show ?thesis
  proof (cases r)
    case True
    have e0: "parentsOrdered (root (case findClassRelationship st child of
                        None \<Rightarrow> \<lparr>className = child, root = [], flags = 0\<rparr> | Some e \<Rightarrow> e))"
      using assms(1) by (auto simp: storeOrdered_def parentsOrdered_def split: option.splits)
    from R True entryAfterRecord_ordered[OF e0, of parent] assms(1) show ?thesis
      by (auto simp: storeOrdered_def findClassRelationship_def split: option.splits if_splits)
  next
    case False
    with R have "\<forall>n. findClassRelationship st' n = findClassRelationship st n \<or>
                (n = child \<and> findClassRelationship st child = None \<and>
                 findClassRelationship st' child = Some \<lparr>className = child, root = [], flags = 0\<rparr>)"
      by simp
    with assms(1) show ?thesis
      unfolding storeOrdered_def
      by (metis J9ClassRelationship.select_convs(2) distinct.simps(1) option.inject parentsOrdered_def sorted_wrt.simps(1))
  qed
qed

lemma walkParents_set:
  assumes "walkParents xs p 0 = (False, ab, i)"
  shows "set (if ab then linkedListAddBefore xs i p else linkedListAddLast xs p) = insert p (set xs)"
proof -
  from walkParents_pos[of xs p 0] assms
  have i: "i = length (takeWhile (\<lambda>w. length w \<le> length p \<and> w \<noteq> p) xs)" by simp
  have "set (take i xs) \<union> set (drop i xs) = set xs"
    by (metis append_take_drop_id set_append)
  then have "set (take i xs @ p # drop i xs) = insert p (set xs)"
    by auto
  then show ?thesis
    by (auto simp: linkedListAddBefore_def linkedListAddLast_def)
qed

lemma entryAfterRecord_set:
  "set (root (entryAfterRecord e parent)) \<subseteq> insert parent (set (root e))"
proof -
  obtain ap ab i where w: "walkParents (root e) parent 0 = (ap, ab, i)"
    by (cases "walkParents (root e) parent 0") auto
  show ?thesis
  proof (cases ap)
    case True
    with w show ?thesis by (auto simp: entryAfterRecord_def)
  next
    case False
    with w have w': "walkParents (root e) parent 0 = (False, ab, i)" by simp
    from walkParents_set[OF w'] w' show ?thesis
      by (auto simp: entryAfterRecord_def)
  qed
qed

lemma entryAfterRecord_noThrowable:
  assumes "J9RELATIONSHIP_JAVA_LANG_THROWABLE_STRING \<notin> set (root e)"
  shows "J9RELATIONSHIP_JAVA_LANG_THROWABLE_STRING \<notin> set (root (entryAfterRecord e parent))"
proof (cases "parent = J9RELATIONSHIP_JAVA_LANG_THROWABLE_STRING")
  case True
  with assms show ?thesis by (simp add: entryAfterRecord_def)
next
  case False
  with assms entryAfterRecord_set[of e parent] show ?thesis by auto
qed

lemma record_noThrowableNode:
  assumes "noThrowableNode st" and "j9bcv_recordClassRelationship st child parent = (r, rc, st')"
  shows "noThrowableNode st'"
proof -
  note R = record_result[OF assms(2)]
  show ?thesis
  proof (cases r)
    case True
    have e0: "J9RELATIONSHIP_JAVA_LANG_THROWABLE_STRING \<notin> set (root (case findClassRelationship st child of
                        None \<Rightarrow> \<lparr>className = child, root = [], flags = 0\<rparr> | Some e \<Rightarrow> e))"
      using assms(1) by (auto simp: noThrowableNode_def split: option.splits)
    from R True entryAfterRecord_noThrowable[OF e0, of parent] assms(1) show ?thesis
      by (auto simp: noThrowableNode_def findClassRelationship_def split: option.splits if_splits)
  next
    case False
    with R have "\<forall>n. findClassRelationship st' n = findClassRelationship st n \<or>
                (n = child \<and> findClassRelationship st child = None \<and>
                 findClassRelationship st' child = Some \<lparr>className = child, root = [], flags = 0\<rparr>)"
      by simp
    with assms(1) show ?thesis
      unfolding noThrowableNode_def
      by (metis J9ClassRelationship.select_convs(2) empty_iff list.set(1) option.inject)
  qed
qed

lemma bits_or_throwable:
  "J9_ARE_ANY_BITS_SET (fl OR J9RELATIONSHIP_PARENT_CLASS_IS_THROWABLE) J9RELATIONSHIP_PARENT_CLASS_IS_THROWABLE"
  unfolding J9_ARE_ANY_BITS_SET_def J9RELATIONSHIP_PARENT_CLASS_IS_THROWABLE_def and2
  by (auto simp: bit_simps)

lemma bits_or_interface:
  "J9_ARE_ANY_BITS_SET (fl OR J9RELATIONSHIP_MUST_BE_INTERFACE) J9RELATIONSHIP_MUST_BE_INTERFACE"
  unfolding J9_ARE_ANY_BITS_SET_def J9RELATIONSHIP_MUST_BE_INTERFACE_def and1
  by (auto simp: bit_simps)

lemma bits_or_interface_throwable:
  "J9_ARE_ANY_BITS_SET (fl OR J9RELATIONSHIP_MUST_BE_INTERFACE) J9RELATIONSHIP_PARENT_CLASS_IS_THROWABLE
   = J9_ARE_ANY_BITS_SET fl J9RELATIONSHIP_PARENT_CLASS_IS_THROWABLE"
  unfolding J9_ARE_ANY_BITS_SET_def J9RELATIONSHIP_MUST_BE_INTERFACE_def
    J9RELATIONSHIP_PARENT_CLASS_IS_THROWABLE_def and2
  by (auto simp: bit_simps)

lemma entryAfterRecord_pending: "entryPending (entryAfterRecord e parent)"
proof (cases "parent = J9RELATIONSHIP_JAVA_LANG_THROWABLE_STRING")
  case True
  then show ?thesis by (simp add: entryAfterRecord_def entryPending_def bits_or_throwable)
next
  case False
  obtain ap ab i where w: "walkParents (root e) parent 0 = (ap, ab, i)"
    by (cases "walkParents (root e) parent 0") auto
  with False show ?thesis
    by (cases ap) (auto simp: entryAfterRecord_def entryPending_def linkedListAddBefore_def linkedListAddLast_def)
qed

lemma record_allPending:
  assumes "allPending st" and "j9bcv_recordClassRelationship st child parent = (True, rc, st')"
  shows "allPending st'"
  using record_result[OF assms(2)] assms(1) entryAfterRecord_pending
  by (auto simp: allPending_def findClassRelationship_def split: option.splits if_splits)

lemma record_noop:
  assumes "findClassRelationship st child = Some e" and "parentsOrdered (root e)"
    and "parent \<in> set (root e)" and "parent \<noteq> J9RELATIONSHIP_JAVA_LANG_THROWABLE_STRING"
  shows "j9bcv_recordClassRelationship st child parent = (True, BCV_SUCCESS, st)"
proof -
  from assms(1) have t: "classRelationshipsHashTable st \<noteq> None"
    by (auto simp: findClassRelationship_def split: option.splits)
  from assms(1) have f: "findOrAddChildEntry st child = (Some e, st)"
    by (simp add: findOrAddChildEntry_def)
  from assms(3) have ne: "root e \<noteq> []" by auto
  from walk_present[of "root e" parent 0] assms(2,3)
  have "fst (walkParents (root e) parent 0)"
    by (simp add: parentsOrdered_def lenle_def[abs_def])
  then obtain ab i where "walkParents (root e) parent 0 = (True, ab, i)"
    by (cases "walkParents (root e) parent 0") auto
  with ne assms(4) have "addParent st child e parent = (True, st)"
    by (simp add: addParent_def)
  with t f show ?thesis
    by (auto simp: j9bcv_recordClassRelationship_def)
qed

lemma recordAll_invariants:
  assumes "storeOrdered st0" and "noThrowableNode st0" and "recordAll st0 child ps = Some st"
  shows "storeOrdered st \<and> noThrowableNode st"
  using assms
proof (induction ps arbitrary: st0)
  case Nil
  then show ?case by simp
next
  case (Cons p ps)
  obtain r rc st1 where r: "j9bcv_recordClassRelationship st0 child p = (r, rc, st1)"
    by (cases "j9bcv_recordClassRelationship st0 child p") auto
  with Cons.prems(3) have "r" and rest: "recordAll st1 child ps = Some st"
    by (auto split: bool.splits)
  from record_storeOrdered[OF Cons.prems(1) r] record_noThrowableNode[OF Cons.prems(2) r]
    Cons.IH[OF _ _ rest] show ?case by simp
qed

section \<open>Lemmas on validating the relationships of a class\<close>

lemma or_idem: "(fl :: 32 word) OR m OR m = fl OR m"
  by (simp add: or.assoc)

lemma validateParent_result:
  assumes "validateParent vm cc node st = (f, st')" and "classRelationshipsHashTable st = Some t"
  shows "classRelationshipsPool st' = classRelationshipsPool st
       \<and> classRelationshipSnippetsHashTable st' = classRelationshipSnippetsHashTable st
       \<and> trace st' = trace st
       \<and> (case hashClassTableAt vm node of
             None \<Rightarrow>
               (case f of
                  None \<Rightarrow> classRelationshipsHashTable st' =
                     Some (t(node \<mapsto> (case t node of
                        None \<Rightarrow> \<lparr>className = node, root = [], flags = J9RELATIONSHIP_MUST_BE_INTERFACE\<rparr>
                      | Some e \<Rightarrow> e\<lparr>flags := flags e OR J9RELATIONSHIP_MUST_BE_INTERFACE\<rparr>)))
                | Some c \<Rightarrow> c = cc \<and> t node = None \<and> classRelationshipsHashTable st' = Some t)
           | Some pc \<Rightarrow> st' = st \<and>
               (case f of None \<Rightarrow> romIsInterface pc \<or> isSameOrSuperClassOf vm pc cc
                | Some c \<Rightarrow> c = pc \<and> \<not> romIsInterface pc \<and> \<not> isSameOrSuperClassOf vm pc cc))"
proof (cases "hashClassTableAt vm node")
  case None
  with assms show ?thesis
    by (auto simp: validateParent_def findClassRelationship_def Let_def
          split: option.splits prod.splits if_splits dest!: allocateE)
next
  case (Some pc)
  have "validateParent vm cc node st =
          (if romIsInterface pc \<or> isSameOrSuperClassOf vm pc cc then (None, st) else (Some pc, st))"
    by (simp add: validateParent_def Some)
  with assms(1) have "st' = st"
    and "f = (if romIsInterface pc \<or> isSameOrSuperClassOf vm pc cc then None else Some pc)"
    by (auto split: if_splits)
  then show ?thesis by (simp add: Some)
qed

lemma grows_refl: "grows st st"
  by (auto simp: grows_def split: option.splits)

lemma grows_trans: "grows a b \<Longrightarrow> grows b c \<Longrightarrow> grows a c"
  unfolding grows_def
  apply (intro conjI allI)
      apply simp
     apply simp
    apply simp
   apply simp
  subgoal for n
    apply (elim conjE)
    apply (erule_tac x = n in allE)+
    apply (auto split: option.splits simp: or.assoc bits_or_interface)
    done
  done

lemma validateParent_grows:
  assumes "validateParent vm cc node st = (f, st')" and "classRelationshipsHashTable st \<noteq> None"
  shows "grows st st'"
proof -
  from assms(2) obtain t where t: "classRelationshipsHashTable st = Some t" by auto
  from validateParent_result[OF assms(1) t] t show ?thesis
    by (auto simp: grows_def findClassRelationship_def split: option.splits)
qed

lemma validateParents_grows:
  assumes "validateParents vm cc nodes st = (f, st')" and "classRelationshipsHashTable st \<noteq> None"
  shows "grows st st'"
  using assms
proof (induction nodes arbitrary: st)
  case Nil
  then show ?case by (simp add: grows_refl)
next
  case (Cons node nodes)
  obtain f1 st1 where s: "validateParent vm cc node st = (f1, st1)"
    by (cases "validateParent vm cc node st") auto
  from validateParent_grows[OF s Cons.prems(2)] have g: "grows st st1" .
  then have ne: "classRelationshipsHashTable st1 \<noteq> None"
    using Cons.prems(2) by (simp add: grows_def)
  show ?case
  proof (cases f1)
    case None
    with s Cons.prems(1) have "validateParents vm cc nodes st1 = (f, st')" by simp
    from Cons.IH[OF this ne] g show ?thesis by (rule grows_trans[rotated])
  next
    case (Some c)
    with s Cons.prems(1) have "st' = st1" by simp
    with g show ?thesis by simp
  qed
qed

lemma grows_storeOrdered: "grows st st' \<Longrightarrow> storeOrdered st \<Longrightarrow> storeOrdered st'"
  unfolding grows_def storeOrdered_def
  apply (intro allI impI)
  subgoal for name e
    apply (elim conjE)
    apply (erule_tac x = name in allE)+
    apply (auto split: option.splits simp: parentsOrdered_def)
    done
  done

lemma grows_noThrowableNode: "grows st st' \<Longrightarrow> noThrowableNode st \<Longrightarrow> noThrowableNode st'"
  unfolding grows_def noThrowableNode_def
  apply (intro allI impI)
  subgoal for name e
    apply (elim conjE)
    apply (erule_tac x = name in allE)+
    apply (auto split: option.splits)
    done
  done

lemma bits_interface_self:
  "J9_ARE_ANY_BITS_SET J9RELATIONSHIP_MUST_BE_INTERFACE J9RELATIONSHIP_MUST_BE_INTERFACE"
  by (simp add: J9_ARE_ANY_BITS_SET_def J9RELATIONSHIP_MUST_BE_INTERFACE_def)

lemma grows_allPending: "grows st st' \<Longrightarrow> allPending st \<Longrightarrow> allPending st'"
  unfolding grows_def allPending_def
  apply (intro allI impI)
  subgoal for name e
    apply (elim conjE)
    apply (erule_tac x = name in allE)+
    apply (auto split: option.splits simp: entryPending_def bits_or_interface bits_interface_self)
    done
  done

lemma find_remove_free:
  "findClassRelationship (hashTableRemove vm (freeClassRelationshipNodes st c) c) n =
     (if n = c
      then (if findsFreedName vm c then None
            else map_option (\<lambda>e. e\<lparr>root := []\<rparr>) (findClassRelationship st c))
      else findClassRelationship st n)"
  by (auto simp: hashTableRemove_def freeClassRelationshipNodes_def findClassRelationship_def
        putClassRelationship_def split: option.splits)

lemma validate_flagsPass:
  assumes "findClassRelationship st child = Some e" and "flagChecksPass vm e cc"
  shows "j9bcv_validateClassRelationships vm st child cc =
           Inr (case validateParents vm cc (root e) st of
                  (Some fc, st1) \<Rightarrow> (Some fc, st1)
                | (None, st1) \<Rightarrow>
                    (None, hashTableRemove vm (freeClassRelationshipNodes st1 child) child))"
  using assms
  by (auto simp: j9bcv_validateClassRelationships_def flagChecksPass_def split: prod.splits option.splits)

lemma validate_cases:
  assumes "j9bcv_validateClassRelationships vm st child cc = Inr (f, st')"
  shows "st' = st \<or>
         (\<exists>st1. grows st st1 \<and> (st' = st1 \<or>
            f = None \<and> st' = hashTableRemove vm (freeClassRelationshipNodes st1 child) child))"
proof (cases "findClassRelationship st child")
  case None
  with assms show ?thesis by (simp add: j9bcv_validateClassRelationships_def)
next
  case (Some e)
  then have ne: "classRelationshipsHashTable st \<noteq> None"
    by (auto simp: findClassRelationship_def split: option.splits)
  show ?thesis
  proof (cases "flagChecksPass vm e cc")
    case True
    obtain f1 st1 where w: "validateParents vm cc (root e) st = (f1, st1)"
      by (cases "validateParents vm cc (root e) st") auto
    from validateParents_grows[OF w ne] have "grows st st1" .
    with validate_flagsPass[OF Some True] w assms show ?thesis
      by (cases f1) auto
  next
    case False
    with Some assms have "st' = st"
      by (auto simp: j9bcv_validateClassRelationships_def flagChecksPass_def split: if_splits)
    then show ?thesis by simp
  qed
qed

lemma validate_None_removed:
  assumes "j9bcv_validateClassRelationships vm st child cc = Inr (None, st')"
    and "findsFreedName vm child"
  shows "findClassRelationship st' child = None"
proof (cases "findClassRelationship st child")
  case None
  with assms show ?thesis by (simp add: j9bcv_validateClassRelationships_def)
next
  case (Some e)
  show ?thesis
  proof (cases "flagChecksPass vm e cc")
    case True
    from validate_flagsPass[OF Some True] assms show ?thesis
      by (auto split: prod.splits option.splits simp: find_remove_free)
  next
    case False
    with Some assms show ?thesis
      by (auto simp: j9bcv_validateClassRelationships_def flagChecksPass_def split: if_splits)
  qed
qed

lemma validate_preserves:
  assumes "j9bcv_validateClassRelationships vm st child cc = Inr (f, st')"
  shows "(storeOrdered st \<longrightarrow> storeOrdered st') \<and> (noThrowableNode st \<longrightarrow> noThrowableNode st')
       \<and> (findsFreedName vm child \<and> allPending st \<longrightarrow> allPending st')"
proof -
  from validate_cases[OF assms] consider "st' = st"
    | st1 where "grows st st1" "st' = st1"
    | st1 where "grows st st1" "st' = hashTableRemove vm (freeClassRelationshipNodes st1 child) child"
    by blast
  then show ?thesis
  proof cases
    case 1
    then show ?thesis by simp
  next
    case 2
    then show ?thesis
      using grows_storeOrdered grows_noThrowableNode grows_allPending by blast
  next
    case 3
    have "storeOrdered st1 \<Longrightarrow> storeOrdered st'" "noThrowableNode st1 \<Longrightarrow> noThrowableNode st'"
      "findsFreedName vm child \<Longrightarrow> allPending st1 \<Longrightarrow> allPending st'"
      unfolding storeOrdered_def noThrowableNode_def allPending_def 3(2) find_remove_free
      by (auto simp: parentsOrdered_def split: if_splits)
    with 3(1) show ?thesis
      using grows_storeOrdered grows_noThrowableNode grows_allPending by blast
  qed
qed

lemma validateParents_append:
  "validateParents vm cc (xs @ ys) st =
     (case validateParents vm cc xs st of
        (Some fc, st1) \<Rightarrow> (Some fc, st1)
      | (None, st1) \<Rightarrow> validateParents vm cc ys st1)"
  by (induction xs arbitrary: st) (auto split: prod.splits option.splits)




lemma validate_must_be_interface:
  assumes "findClassRelationship st p = Some pe"
    and "J9_ARE_ANY_BITS_SET (flags pe) J9RELATIONSHIP_MUST_BE_INTERFACE"
    and "\<not> romIsInterface pClass"
  shows "j9bcv_validateClassRelationships vm st p pClass = Inr (Some pClass, st)"
  using assms by (simp add: j9bcv_validateClassRelationships_def)

lemma validateParent_alloc_fails:
  assumes "hashClassTableAt vm p = None" and "findClassRelationship st p = None"
    and "\<not> fst (allocate st) \<or> \<not> fst (allocate (snd (allocate st)))"
  shows "fst (validateParent vm cc p st) = Some cc"
  using assms
  by (auto simp: validateParent_def Let_def split: prod.splits)

lemma validate_alloc_fails:
  assumes e: "findClassRelationship st child = Some e" and fl: "flagChecksPass vm e cc"
    and r: "root e = pre @ p # post"
    and w: "validateParents vm cc pre st = (None, st1)"
    and u: "hashClassTableAt vm p = None" and n: "findClassRelationship st1 p = None"
    and a: "\<not> fst (allocate st1) \<or> \<not> fst (allocate (snd (allocate st1)))"
  shows "\<exists>st'. j9bcv_validateClassRelationships vm st child cc = Inr (Some cc, st')"
proof -
  from validateParent_alloc_fails[OF u n a, of cc] obtain st2 where
    "validateParent vm cc p st1 = (Some cc, st2)"
    by (cases "validateParent vm cc p st1") auto
  with w r have "validateParents vm cc (root e) st = (Some cc, st2)"
    by (simp add: validateParents_append)
  with validate_flagsPass[OF e fl] show ?thesis by simp
qed

lemmas eval_defs = j9bcv_recordClassRelationship_def allocateClassRelationshipTableAndPool_def
  allocate_def findOrAddChildEntry_def addParent_def allocateClassRelationshipNode_def
  findClassRelationship_def putClassRelationship_def initialState_def
  J9RELATIONSHIP_JAVA_LANG_THROWABLE_STRING_def J9_ARE_ANY_BITS_SET_def
  J9RELATIONSHIP_PARENT_CLASS_IS_THROWABLE_def J9RELATIONSHIP_MUST_BE_INTERFACE_def
  linkedListAddBefore_def linkedListAddLast_def Let_def
  j9bcv_validateClassRelationships_def validateParent_def freeClassRelationshipNodes_def
  hashTableRemove_def exampleVM_def emptyVM_def classApp_def classBase_def classThrowable_def
  classSerializable_def nodeCount_def

lemma reachable_invariants:
  "reachable st \<Longrightarrow> storeOrdered st \<and> noThrowableNode st"
proof (induction rule: reachable.induct)
  case (reachable_init st)
  then show ?case
    by (simp add: storeOrdered_def noThrowableNode_def findClassRelationship_def)
next
  case (reachable_record st child parent r rc st')
  then show ?case
    using record_storeOrdered record_noThrowableNode by blast
next
  case (reachable_validate st vm child childClass failed st')
  then show ?case
    using validate_preserves by blast
qed

text \<open>
  \<^bold>\<open>C7.\<close> From any state the table can be in, after any sequence of calls of
  \<^verbatim>\<open>j9bcv_recordClassRelationship\<close> for one child that all succeed, the parent nodes of the
  child's entry are ordered by the length of their names, never decreasing from head to
  tail, and no two nodes have the same name; recording a parent name that is already in the
  sequence succeeds and leaves the whole state as it is: no node is allocated, no request
  for memory is made.
\<close>

theorem record_keeps_parents_ordered:
  assumes "reachable st0" and "recordAll st0 child ps = Some st"
    and "findClassRelationship st child = Some e"
  shows "sorted_wrt (\<lambda>a b. length a \<le> length b) (root e) \<and> distinct (root e)
       \<and> (\<forall>p \<in> set (root e). j9bcv_recordClassRelationship st child p = (True, BCV_SUCCESS, st))"
proof -
  from reachable_invariants[OF assms(1)] recordAll_invariants[OF _ _ assms(2)]
  have inv: "storeOrdered st" "noThrowableNode st" by simp_all
  from inv(1) assms(3) have po: "parentsOrdered (root e)" by (auto simp: storeOrdered_def)
  from inv(2) assms(3) have nt: "J9RELATIONSHIP_JAVA_LANG_THROWABLE_STRING \<notin> set (root e)"
    by (auto simp: noThrowableNode_def)
  have "\<forall>p \<in> set (root e). j9bcv_recordClassRelationship st child p = (True, BCV_SUCCESS, st)"
  proof
    fix p assume p: "p \<in> set (root e)"
    with nt have "p \<noteq> J9RELATIONSHIP_JAVA_LANG_THROWABLE_STRING" by auto
    from record_noop[OF assms(3) po p this] show
      "j9bcv_recordClassRelationship st child p = (True, BCV_SUCCESS, st)" .
  qed
  with po show ?thesis by (simp add: parentsOrdered_def)
qed

theorem record_keeps_parents_ordered_witness:
  "recordAll initialState ''App'' [''Base'', ''B'', ''Base''] = Some stateAppBBase
   \<and> findClassRelationship stateAppBBase ''App''
       = Some \<lparr>className = ''App'', root = [''B'', ''Base''], flags = 0\<rparr>
   \<and> distinct [''B'', ''Base'']
   \<and> j9bcv_recordClassRelationship stateAppBBase ''App'' ''Base'' = (True, BCV_SUCCESS, stateAppBBase)"
proof -
  have h1: "reachable initialState"
    by (rule reachable_init) (simp_all add: initialState_def)
  have h2: "recordAll initialState ''App'' [''Base'', ''B'', ''Base''] = Some stateAppBBase"
    by (simp add: eval_defs stateAppBBase_def)
  have h3: "findClassRelationship stateAppBBase ''App''
       = Some \<lparr>className = ''App'', root = [''B'', ''Base''], flags = 0\<rparr>"
    by (simp add: findClassRelationship_def stateAppBBase_def)
  from record_keeps_parents_ordered[OF h1 h2 h3] h2 h3 show ?thesis by simp
qed

text \<open>
  \<^bold>\<open>C10.\<close> When the walk of \<^verbatim>\<open>j9bcv_validateClassRelationships\<close> reaches a parent that is
  not loaded and has no entry, and the copy of its name or the new table entry cannot be
  allocated, the function returns the child class itself as the class that failed. That is the
  value it returns when the child's entry asks for an interface and the child is none: at
  this interface running out of memory reads as a violation by the child.
\<close>

theorem validate_out_of_memory_returns_child:
  "(findClassRelationship st child = Some e \<and> flagChecksPass vm e cc \<and> root e = pre @ p # post
      \<and> validateParents vm cc pre st = (None, st1) \<and> hashClassTableAt vm p = None
      \<and> findClassRelationship st1 p = None
      \<and> (\<not> fst (allocate st1) \<or> \<not> fst (allocate (snd (allocate st1))))
    \<longrightarrow> (\<exists>st'. j9bcv_validateClassRelationships vm st child cc = Inr (Some cc, st')))
   \<and> (findClassRelationship st2 child2 = Some e2
        \<and> J9_ARE_ANY_BITS_SET (flags e2) J9RELATIONSHIP_MUST_BE_INTERFACE \<and> \<not> romIsInterface cc2
      \<longrightarrow> j9bcv_validateClassRelationships vm2 st2 child2 cc2 = Inr (Some cc2, st2))"
  using validate_alloc_fails validate_must_be_interface by blast

theorem validate_out_of_memory_returns_child_witness:
  "j9bcv_validateClassRelationships emptyVM (stateAppBase\<lparr>allocs := [False]\<rparr>) ''App'' classApp
     = Inr (Some classApp, stateAppBase)
   \<and> j9bcv_validateClassRelationships exampleVM stateBaseInterface ''Base'' classBase
     = Inr (Some classBase, stateBaseInterface)"
proof -
  let ?st = "stateAppBase\<lparr>allocs := [False]\<rparr>"
  let ?e = "\<lparr>className = ''App'', root = [''Base''], flags = 0\<rparr>"
  have h: "findClassRelationship ?st ''App'' = Some ?e \<and> flagChecksPass emptyVM ?e classApp
      \<and> root ?e = [] @ ''Base'' # []
      \<and> validateParents emptyVM classApp [] ?st = (None, ?st) \<and> hashClassTableAt emptyVM ''Base'' = None
      \<and> findClassRelationship ?st ''Base'' = None
      \<and> (\<not> fst (allocate ?st) \<or> \<not> fst (allocate (snd (allocate ?st))))"
    by (simp add: eval_defs stateAppBase_def flagChecksPass_def)
  let ?e2 = "\<lparr>className = ''Base'', root = [], flags = J9RELATIONSHIP_MUST_BE_INTERFACE\<rparr>"
  have h2: "findClassRelationship stateBaseInterface ''Base'' = Some ?e2
        \<and> J9_ARE_ANY_BITS_SET (flags ?e2) J9RELATIONSHIP_MUST_BE_INTERFACE \<and> \<not> romIsInterface classBase"
    by (simp add: eval_defs stateBaseInterface_def)
  from validate_out_of_memory_returns_child[of ?st "''App''" ?e emptyVM classApp "[]" "''Base''" "[]" ?st
      stateBaseInterface "''Base''" ?e2 classBase exampleVM] h h2
  have "(\<exists>st'. j9bcv_validateClassRelationships emptyVM ?st ''App'' classApp = Inr (Some classApp, st'))
      \<and> j9bcv_validateClassRelationships exampleVM stateBaseInterface ''Base'' classBase
     = Inr (Some classBase, stateBaseInterface)" by blast
  moreover have "j9bcv_validateClassRelationships emptyVM ?st ''App'' classApp
     = Inr (Some classApp, stateAppBase)"
    by (simp add: eval_defs stateAppBase_def)
  ultimately show ?thesis by simp
qed




lemma record_pool:
  assumes "j9bcv_recordClassRelationship st child parent = (r, rc, st')"
  shows "(classRelationshipsHashTable st' = None \<longrightarrow>
            classRelationshipsHashTable st = None \<and> classRelationshipsPool st' = classRelationshipsPool st)
       \<and> (parent = J9RELATIONSHIP_JAVA_LANG_THROWABLE_STRING \<longrightarrow> r \<longrightarrow>
            classRelationshipsPool st' =
              (if classRelationshipsHashTable st = None then Some 0 else classRelationshipsPool st))"
proof -
  obtain ar st0 where a: "(if classRelationshipsHashTable st = None
             then allocateClassRelationshipTableAndPool st else (0, st)) = (ar, st0)"
    by (cases "if classRelationshipsHashTable st = None
             then allocateClassRelationshipTableAndPool st else (0, st)") auto
  show ?thesis
  proof (cases "ar = 0")
    case False
    with a have n: "classRelationshipsHashTable st = None"
      and a': "allocateClassRelationshipTableAndPool st = (ar, st0)"
      by (auto split: if_splits)
    from assms a False have st': "st' = st0" "r = False"
      by (auto simp: j9bcv_recordClassRelationship_def)
    from a' False n have "classRelationshipsHashTable st0 = None \<longrightarrow>
        classRelationshipsPool st0 = classRelationshipsPool st"
      by (auto simp: allocateClassRelationshipTableAndPool_def Let_def
            split: prod.splits if_splits dest!: allocateE)
    with st' n show ?thesis by simp
  next
    case True
    have t0: "\<exists>t. classRelationshipsHashTable st0 = Some t"
      and p0: "classRelationshipsPool st0 =
              (if classRelationshipsHashTable st = None then Some 0 else classRelationshipsPool st)"
      using a True allocTable_result[of st ar st0]
      by (auto split: if_splits)
    then obtain t where t: "classRelationshipsHashTable st0 = Some t" by blast
    obtain fe st1 where f: "findOrAddChildEntry st0 child = (fe, st1)"
      by (cases "findOrAddChildEntry st0 child") auto
    note F = findOrAdd_result[OF f t]
    show ?thesis
    proof (cases fe)
      case None
      with assms a True f F show ?thesis
        by (auto simp: j9bcv_recordClassRelationship_def)
    next
      case (Some e)
      obtain r2 st2 where ap: "addParent st1 child e parent = (r2, st2)"
        by (cases "addParent st1 child e parent") auto
      from F Some have t1: "classRelationshipsHashTable st1 = Some (t(child \<mapsto> e))" by simp
      note A = addParent_result[OF ap t1]
      from assms a True f Some ap have "st' = st2" "r = r2"
        by (auto simp: j9bcv_recordClassRelationship_def split: bool.splits)
      have t2: "classRelationshipsHashTable st2 \<noteq> None"
        using A t1 by (cases r2) (auto split: if_splits prod.splits bool.splits)
      have p1: "classRelationshipsPool st1 = classRelationshipsPool st0" using F by simp
      have "parent = J9RELATIONSHIP_JAVA_LANG_THROWABLE_STRING \<longrightarrow> r2 \<longrightarrow>
              classRelationshipsPool st2 = classRelationshipsPool st1"
        using A by (auto split: if_splits)
      with t2 p1 p0 \<open>st' = st2\<close> \<open>r = r2\<close> show ?thesis by auto
    qed
  qed
qed

lemma free_remove_fields:
  "classRelationshipsHashTable (hashTableRemove vm (freeClassRelationshipNodes st c) c) = None
     \<longleftrightarrow> classRelationshipsHashTable st = None"
  "classRelationshipsPool (hashTableRemove vm (freeClassRelationshipNodes st c) c)
     = (case findClassRelationship st c of None \<Rightarrow> classRelationshipsPool st
        | Some e \<Rightarrow> map_option (\<lambda>n. n - length (root e)) (classRelationshipsPool st))"
  by (auto simp: hashTableRemove_def freeClassRelationshipNodes_def findClassRelationship_def
        putClassRelationship_def split: option.splits)

lemma reachable_pool:
  "reachable st \<Longrightarrow> classRelationshipsHashTable st = None \<longrightarrow> classRelationshipsPool st = None"
proof (induction rule: reachable.induct)
  case (reachable_init st)
  then show ?case by simp
next
  case (reachable_record st child parent r rc st')
  with record_pool[OF reachable_record.hyps(2)] show ?case by auto
next
  case (reachable_validate st vm child childClass failed st')
  from validate_cases[OF reachable_validate.hyps(2)] consider "st' = st"
    | st1 where "grows st st1" "st' = st1"
    | st1 where "grows st st1" "st' = hashTableRemove vm (freeClassRelationshipNodes st1 child) child"
    by blast
  then show ?case
  proof cases
    case 1
    with reachable_validate.IH show ?thesis by simp
  next
    case 2
    with reachable_validate.IH show ?thesis by (simp add: grows_def)
  next
    case 3
    show ?thesis
    proof
      assume "classRelationshipsHashTable st' = None"
      with 3(2) have n1: "classRelationshipsHashTable st1 = None"
        by (simp add: free_remove_fields)
      then have "findClassRelationship st1 child = None"
        by (simp add: findClassRelationship_def)
      with 3(2) have "classRelationshipsPool st' = classRelationshipsPool st1"
        by (simp add: free_remove_fields)
      with n1 3(1) reachable_validate.IH show "classRelationshipsPool st' = None"
        by (simp add: grows_def)
    qed
  qed
qed

lemma record_throwable:
  assumes "j9bcv_recordClassRelationship st child J9RELATIONSHIP_JAVA_LANG_THROWABLE_STRING = (True, rc, st')"
    and "reachable st"
  shows "(\<exists>e'. findClassRelationship st' child = Some e'
            \<and> J9_ARE_ANY_BITS_SET (flags e') J9RELATIONSHIP_PARENT_CLASS_IS_THROWABLE
            \<and> root e' = (case findClassRelationship st child of None \<Rightarrow> [] | Some e \<Rightarrow> root e))
       \<and> nodeCount st' = nodeCount st
       \<and> j9bcv_recordClassRelationship st' child J9RELATIONSHIP_JAVA_LANG_THROWABLE_STRING
            = (True, BCV_SUCCESS, st')"
proof -
  let ?e0 = "case findClassRelationship st child of
                        None \<Rightarrow> \<lparr>className = child, root = [], flags = 0\<rparr> | Some e \<Rightarrow> e"
  let ?e' = "?e0\<lparr>flags := flags ?e0 OR J9RELATIONSHIP_PARENT_CLASS_IS_THROWABLE\<rparr>"
  from record_result[OF assms(1)]
  have f: "findClassRelationship st' child = Some ?e'"
    by (simp add: findClassRelationship_def entryAfterRecord_def)
  have fl: "J9_ARE_ANY_BITS_SET (flags ?e') J9RELATIONSHIP_PARENT_CLASS_IS_THROWABLE"
    by (simp add: bits_or_throwable)
  have rt: "root ?e' = (case findClassRelationship st child of None \<Rightarrow> [] | Some e \<Rightarrow> root e)"
    by (simp split: option.splits)
  from record_pool[OF assms(1)] reachable_pool[OF assms(2)]
  have nc: "nodeCount st' = nodeCount st"
    by (auto simp: nodeCount_def split: if_splits)
  from f have t: "classRelationshipsHashTable st' \<noteq> None"
    by (auto simp: findClassRelationship_def split: option.splits)
  from f have fo: "findOrAddChildEntry st' child = (Some ?e', st')"
    by (simp add: findOrAddChildEntry_def)
  from fl have "addParent st' child ?e' J9RELATIONSHIP_JAVA_LANG_THROWABLE_STRING = (True, st')"
    by (simp add: addParent_def)
  with t fo have "j9bcv_recordClassRelationship st' child J9RELATIONSHIP_JAVA_LANG_THROWABLE_STRING
            = (True, BCV_SUCCESS, st')"
    by (auto simp: j9bcv_recordClassRelationship_def)
  with f fl rt nc show ?thesis by blast
qed

lemma validate_throwable:
  assumes "findClassRelationship st c = Some e"
    and "J9_ARE_ANY_BITS_SET (flags e) J9RELATIONSHIP_PARENT_CLASS_IS_THROWABLE"
    and "J9_ARE_ANY_BITS_SET (flags e) J9RELATIONSHIP_MUST_BE_INTERFACE \<longrightarrow> romIsInterface cc"
    and "javaLangThrowable vm = Some t"
  shows "j9bcv_validateClassRelationships vm st c cc =
           (if isSameOrSuperClassOf vm t cc
            then Inr (case validateParents vm cc (root e) st of
                        (Some fc, st1) \<Rightarrow> (Some fc, st1)
                      | (None, st1) \<Rightarrow> (None, hashTableRemove vm (freeClassRelationshipNodes st1 c) c))
            else Inr (Some t, st))"
  using assms
  by (auto simp: j9bcv_validateClassRelationships_def split: prod.splits option.splits)

lemma reachable_stateXBoth: "reachable stateXBoth"
proof -
  have r0: "reachable initialState"
    by (rule reachable_init) (simp_all add: initialState_def)
  have r1: "j9bcv_recordClassRelationship initialState ''X'' J9RELATIONSHIP_JAVA_LANG_THROWABLE_STRING
     = (True, BCV_SUCCESS, stateXThrowable)"
    by (simp add: eval_defs stateXThrowable_def)
  let ?st2 = "stateXThrowable\<lparr>classRelationshipsHashTable :=
       Some [''X'' \<mapsto> \<lparr>className = ''X'', root = [], flags = J9RELATIONSHIP_PARENT_CLASS_IS_THROWABLE\<rparr>,
             ''C'' \<mapsto> \<lparr>className = ''C'', root = [''X''], flags = 0\<rparr>],
       classRelationshipsPool := Some 1\<rparr>"
  have r2: "j9bcv_recordClassRelationship stateXThrowable ''C'' ''X'' = (True, BCV_SUCCESS, ?st2)"
    by (simp add: eval_defs stateXThrowable_def)
  have r3: "j9bcv_validateClassRelationships emptyVM ?st2 ''C'' \<lparr>romClassName = ''C'', romIsInterface = False\<rparr>
     = Inr (None, stateXBoth)"
    by (simp add: eval_defs stateXThrowable_def stateXBoth_def)
  from reachable_validate[OF reachable_record[OF reachable_record[OF r0 r1] r2] r3] show ?thesis .
qed

text \<open>
  \<^bold>\<open>C4 (amended).\<close> A successful call of \<^verbatim>\<open>j9bcv_recordClassRelationship\<close> with the parent
  \<^verbatim>\<open>java/lang/Throwable\<close> sets \<^verbatim>\<open>J9RELATIONSHIP_PARENT_CLASS_IS_THROWABLE\<close> in the child's
  entry, leaves the entry's nodes and the number of allocated nodes as they are, and a second
  such call changes nothing; in no state the table can be in does a sequence of parent nodes
  hold a node named \<^verbatim>\<open>java/lang/Throwable\<close>. Validating a child whose entry has the flag set,
  once the check of \<^verbatim>\<open>J9RELATIONSHIP_MUST_BE_INTERFACE\<close> has passed (the flag is not set or
  the child is an interface), returns \<^verbatim>\<open>java/lang/Throwable\<close> as the failed class when
  Throwable is not the same as or a superclass of the child, with the state unchanged.
\<close>

theorem throwable_parent_is_a_flag:
  "(reachable st
      \<and> j9bcv_recordClassRelationship st child J9RELATIONSHIP_JAVA_LANG_THROWABLE_STRING = (True, rc, st')
    \<longrightarrow> (\<exists>e'. findClassRelationship st' child = Some e'
            \<and> J9_ARE_ANY_BITS_SET (flags e') J9RELATIONSHIP_PARENT_CLASS_IS_THROWABLE
            \<and> root e' = (case findClassRelationship st child of None \<Rightarrow> [] | Some e \<Rightarrow> root e))
       \<and> nodeCount st' = nodeCount st
       \<and> j9bcv_recordClassRelationship st' child J9RELATIONSHIP_JAVA_LANG_THROWABLE_STRING
            = (True, BCV_SUCCESS, st'))
   \<and> (reachable st2 \<longrightarrow> noThrowableNode st2)
   \<and> (findClassRelationship st3 c = Some e
        \<and> J9_ARE_ANY_BITS_SET (flags e) J9RELATIONSHIP_PARENT_CLASS_IS_THROWABLE
        \<and> (J9_ARE_ANY_BITS_SET (flags e) J9RELATIONSHIP_MUST_BE_INTERFACE \<longrightarrow> romIsInterface cc)
        \<and> javaLangThrowable vm = Some t \<and> \<not> isSameOrSuperClassOf vm t cc
      \<longrightarrow> j9bcv_validateClassRelationships vm st3 c cc = Inr (Some t, st3))"
proof (intro conjI impI)
  assume a: "reachable st
      \<and> j9bcv_recordClassRelationship st child J9RELATIONSHIP_JAVA_LANG_THROWABLE_STRING = (True, rc, st')"
  from record_throwable[of st child rc st'] a
  show "\<exists>e'. findClassRelationship st' child = Some e'
            \<and> J9_ARE_ANY_BITS_SET (flags e') J9RELATIONSHIP_PARENT_CLASS_IS_THROWABLE
            \<and> root e' = (case findClassRelationship st child of None \<Rightarrow> [] | Some e \<Rightarrow> root e)"
    and "nodeCount st' = nodeCount st"
    and "j9bcv_recordClassRelationship st' child J9RELATIONSHIP_JAVA_LANG_THROWABLE_STRING
            = (True, BCV_SUCCESS, st')"
    by blast+
next
  assume "reachable st2"
  then show "noThrowableNode st2" by (simp add: reachable_invariants)
next
  assume a: "findClassRelationship st3 c = Some e
        \<and> J9_ARE_ANY_BITS_SET (flags e) J9RELATIONSHIP_PARENT_CLASS_IS_THROWABLE
        \<and> (J9_ARE_ANY_BITS_SET (flags e) J9RELATIONSHIP_MUST_BE_INTERFACE \<longrightarrow> romIsInterface cc)
        \<and> javaLangThrowable vm = Some t \<and> \<not> isSameOrSuperClassOf vm t cc"
  with validate_throwable[of st3 c e cc vm t]
  show "j9bcv_validateClassRelationships vm st3 c cc = Inr (Some t, st3)" by simp
qed

theorem throwable_parent_is_a_flag_witness:
  "j9bcv_recordClassRelationship initialState ''X'' J9RELATIONSHIP_JAVA_LANG_THROWABLE_STRING
     = (True, BCV_SUCCESS, stateXThrowable)
   \<and> j9bcv_recordClassRelationship stateXThrowable ''X'' J9RELATIONSHIP_JAVA_LANG_THROWABLE_STRING
     = (True, BCV_SUCCESS, stateXThrowable)
   \<and> nodeCount stateXThrowable = nodeCount initialState
   \<and> noThrowableNode stateXThrowable
   \<and> j9bcv_validateClassRelationships exampleVM stateXThrowable ''X'' classX
     = Inr (Some classThrowable, stateXThrowable)"
proof -
  have r0: "reachable initialState"
    by (rule reachable_init) (simp_all add: initialState_def)
  have r1: "j9bcv_recordClassRelationship initialState ''X'' J9RELATIONSHIP_JAVA_LANG_THROWABLE_STRING
     = (True, BCV_SUCCESS, stateXThrowable)"
    by (simp add: eval_defs stateXThrowable_def)
  from reachable_record[OF r0 r1] have r2: "reachable stateXThrowable" .
  let ?e = "\<lparr>className = ''X'', root = [], flags = J9RELATIONSHIP_PARENT_CLASS_IS_THROWABLE\<rparr>"
  have h3: "findClassRelationship stateXThrowable ''X'' = Some ?e
        \<and> J9_ARE_ANY_BITS_SET (flags ?e) J9RELATIONSHIP_PARENT_CLASS_IS_THROWABLE
        \<and> (J9_ARE_ANY_BITS_SET (flags ?e) J9RELATIONSHIP_MUST_BE_INTERFACE \<longrightarrow> romIsInterface classX)
        \<and> javaLangThrowable exampleVM = Some classThrowable
        \<and> \<not> isSameOrSuperClassOf exampleVM classThrowable classX"
    by (simp add: eval_defs stateXThrowable_def classX_def)
  from throwable_parent_is_a_flag[of initialState "''X''" BCV_SUCCESS stateXThrowable stateXThrowable
     stateXThrowable "''X''" ?e classX exampleVM classThrowable] r0 r1 r2 h3
  show ?thesis by simp
qed

theorem throwable_parent_is_a_flag_counterexample:
  "reachable stateXBoth
   \<and> findClassRelationship stateXBoth ''X''
     = Some \<lparr>className = ''X'', root = [],
            flags = J9RELATIONSHIP_PARENT_CLASS_IS_THROWABLE OR J9RELATIONSHIP_MUST_BE_INTERFACE\<rparr>
   \<and> J9_ARE_ANY_BITS_SET (J9RELATIONSHIP_PARENT_CLASS_IS_THROWABLE OR J9RELATIONSHIP_MUST_BE_INTERFACE)
        J9RELATIONSHIP_PARENT_CLASS_IS_THROWABLE
   \<and> javaLangThrowable exampleVM = Some classThrowable
   \<and> \<not> isSameOrSuperClassOf exampleVM classThrowable classX
   \<and> j9bcv_validateClassRelationships exampleVM stateXBoth ''X'' classX = Inr (Some classX, stateXBoth)
   \<and> classX \<noteq> classThrowable"
  using reachable_stateXBoth by (simp add: eval_defs stateXBoth_def classX_def)

lemma grows_entry:
  assumes "grows st st1" and "findClassRelationship st c = Some e"
  shows "\<exists>e1. findClassRelationship st1 c = Some e1 \<and> root e1 = root e"
proof -
  from assms(1) have "case findClassRelationship st c of
               None \<Rightarrow> findClassRelationship st1 c = None \<or>
                         findClassRelationship st1 c =
                           Some \<lparr>className = c, root = [], flags = J9RELATIONSHIP_MUST_BE_INTERFACE\<rparr>
             | Some e \<Rightarrow> findClassRelationship st1 c = Some e \<or>
                  findClassRelationship st1 c =
                    Some (e\<lparr>flags := flags e OR J9RELATIONSHIP_MUST_BE_INTERFACE\<rparr>)"
    unfolding grows_def by blast
  with assms(2) show ?thesis by auto
qed

lemma validate_None_releases:
  assumes "j9bcv_validateClassRelationships vm st c cc = Inr (None, st')"
  shows "nodeCount st' =
           nodeCount st - (case findClassRelationship st c of None \<Rightarrow> 0 | Some e \<Rightarrow> length (root e))"
proof (cases "findClassRelationship st c")
  case None
  with assms show ?thesis by (simp add: j9bcv_validateClassRelationships_def)
next
  case (Some e)
  then have ne: "classRelationshipsHashTable st \<noteq> None"
    by (auto simp: findClassRelationship_def split: option.splits)
  have fp: "flagChecksPass vm e cc"
  proof (rule ccontr)
    assume "\<not> flagChecksPass vm e cc"
    with Some assms show False
      by (auto simp: j9bcv_validateClassRelationships_def flagChecksPass_def split: if_splits)
  qed
  obtain f1 st1 where w: "validateParents vm cc (root e) st = (f1, st1)"
    by (cases "validateParents vm cc (root e) st") auto
  from validate_flagsPass[OF Some fp] w assms
  have st': "st' = hashTableRemove vm (freeClassRelationshipNodes st1 c) c"
    by (auto split: option.splits)
  from validateParents_grows[OF w ne] have g: "grows st st1" .
  from grows_entry[OF g Some] obtain e1 where e1: "findClassRelationship st1 c = Some e1" "root e1 = root e"
    by blast
  from g have "classRelationshipsPool st1 = classRelationshipsPool st" by (simp add: grows_def)
  with st' e1 Some show ?thesis
    by (auto simp: nodeCount_def free_remove_fields split: option.splits)
qed

text \<open>
  While the lookup of \<^verbatim>\<open>hashTableRemove\<close> with the freed name finds the entry: every call of
  \<^verbatim>\<open>j9bcv_recordClassRelationship\<close> that succeeds and every call of
  \<^verbatim>\<open>j9bcv_validateClassRelationships\<close> keeps this true of the table: every entry has a
  pending obligation, a parent node or one of the two flags; and when
  \<^verbatim>\<open>j9bcv_validateClassRelationships\<close> returns no failed class for a child, no entry is left
  under the child's name. The nodes of the entry are back in the pool in any case.
\<close>

lemma entries_pending_while_lookup_finds:
  "(allPending st \<and> j9bcv_recordClassRelationship st c p = (True, rc, st') \<longrightarrow> allPending st')
   \<and> (findsFreedName vm2 c2 \<and> allPending st2
        \<and> j9bcv_validateClassRelationships vm2 st2 c2 cc2 = Inr (f2, st2')
        \<longrightarrow> allPending st2')
   \<and> (j9bcv_validateClassRelationships vm3 st3 c3 cc3 = Inr (None, st3')
        \<longrightarrow> (findsFreedName vm3 c3 \<longrightarrow> findClassRelationship st3' c3 = None)
          \<and> nodeCount st3' =
              nodeCount st3 - (case findClassRelationship st3 c3 of None \<Rightarrow> 0
                               | Some e \<Rightarrow> length (root e)))"
proof (intro conjI impI)
  assume "allPending st \<and> j9bcv_recordClassRelationship st c p = (True, rc, st')"
  then show "allPending st'" using record_allPending by blast
next
  assume "findsFreedName vm2 c2 \<and> allPending st2
        \<and> j9bcv_validateClassRelationships vm2 st2 c2 cc2 = Inr (f2, st2')"
  then show "allPending st2'" using validate_preserves by blast
next
  assume a: "j9bcv_validateClassRelationships vm3 st3 c3 cc3 = Inr (None, st3')"
  { assume "findsFreedName vm3 c3"
    from validate_None_removed[OF a this] show "findClassRelationship st3' c3 = None" . }
  from validate_None_releases[OF a] show "nodeCount st3' =
              nodeCount st3 - (case findClassRelationship st3 c3 of None \<Rightarrow> 0
                               | Some e \<Rightarrow> length (root e))" .
qed

lemma entries_pending_while_lookup_finds_example:
  "allPending initialState \<and> allPending stateAppBase \<and> allPending stateBaseInterface
   \<and> j9bcv_recordClassRelationship initialState ''App'' ''Base'' = (True, BCV_SUCCESS, stateAppBase)
   \<and> j9bcv_validateClassRelationships emptyVM stateAppBase ''App'' classApp
        = Inr (None, stateBaseInterface)
   \<and> findClassRelationship stateBaseInterface ''App'' = None
   \<and> nodeCount stateBaseInterface = 0"
proof -
  have a0: "allPending initialState"
    by (simp add: allPending_def findClassRelationship_def initialState_def)
  have r: "j9bcv_recordClassRelationship initialState ''App'' ''Base'' = (True, BCV_SUCCESS, stateAppBase)"
    by (simp add: eval_defs stateAppBase_def)
  have v: "j9bcv_validateClassRelationships emptyVM stateAppBase ''App'' classApp
        = Inr (None, stateBaseInterface)"
    by (simp add: eval_defs stateAppBase_def stateBaseInterface_def fun_upd_twist)
  have n: "nodeCount stateAppBase - (case findClassRelationship stateAppBase ''App'' of None \<Rightarrow> 0
                               | Some e \<Rightarrow> length (root e)) = 0"
    by (simp add: eval_defs stateAppBase_def)
  have fo: "findsFreedName emptyVM ''App''" by (simp add: emptyVM_def)
  from entries_pending_while_lookup_finds[of initialState "''App''" "''Base''" BCV_SUCCESS stateAppBase
      emptyVM "''App''" stateAppBase classApp None stateBaseInterface
      emptyVM stateAppBase "''App''" classApp stateBaseInterface] a0 r v n fo
  show ?thesis by simp
qed

text \<open>A call of \<^verbatim>\<open>j9bcv_recordClassRelationship\<close> that fails on the allocation of the node,
  after it has added the child's entry (lines 902-938), leaves that entry with no node and
  no flag.\<close>

lemma failed_record_leaves_empty_entry:
  "reachable (initialState\<lparr>allocs := [True, True, True, True, False]\<rparr>)
   \<and> j9bcv_recordClassRelationship (initialState\<lparr>allocs := [True, True, True, True, False]\<rparr>)
        ''App'' ''Base'' = (False, BCV_ERR_INSUFFICIENT_MEMORY, stateAppEmpty)
   \<and> findClassRelationship stateAppEmpty ''App'' = Some \<lparr>className = ''App'', root = [], flags = 0\<rparr>
   \<and> \<not> entryPending \<lparr>className = ''App'', root = [], flags = 0\<rparr>
   \<and> \<not> allPending stateAppEmpty"
proof -
  have r: "reachable (initialState\<lparr>allocs := [True, True, True, True, False]\<rparr>)"
    by (rule reachable_init) (simp_all add: initialState_def)
  have f: "findClassRelationship stateAppEmpty ''App'' = Some \<lparr>className = ''App'', root = [], flags = 0\<rparr>"
    by (simp add: findClassRelationship_def stateAppEmpty_def)
  have np: "\<not> entryPending \<lparr>className = ''App'', root = [], flags = 0\<rparr>"
    by (simp add: entryPending_def J9_ARE_ANY_BITS_SET_def)
  from f np have "\<not> allPending stateAppEmpty" by (auto simp: allPending_def)
  moreover have "j9bcv_recordClassRelationship (initialState\<lparr>allocs := [True, True, True, True, False]\<rparr>)
        ''App'' ''Base'' = (False, BCV_ERR_INSUFFICIENT_MEMORY, stateAppEmpty)"
    by (simp add: eval_defs stateAppEmpty_def)
  ultimately show ?thesis using r f np by simp
qed

lemma validate_missed_removal:
  assumes e: "findClassRelationship st c = Some e" and miss: "\<not> findsFreedName vm c"
    and v: "j9bcv_validateClassRelationships vm st c cc = Inr (None, st')"
  shows "\<exists>e'. findClassRelationship st' c = Some e' \<and> root e' = []"
proof -
  from e have ne: "classRelationshipsHashTable st \<noteq> None"
    by (auto simp: findClassRelationship_def split: option.splits)
  have fp: "flagChecksPass vm e cc"
  proof (rule ccontr)
    assume "\<not> flagChecksPass vm e cc"
    with e v show False
      by (auto simp: j9bcv_validateClassRelationships_def flagChecksPass_def split: if_splits)
  qed
  obtain f1 st1 where w: "validateParents vm cc (root e) st = (f1, st1)"
    by (cases "validateParents vm cc (root e) st") auto
  from validate_flagsPass[OF e fp] w v
  have st': "st' = hashTableRemove vm (freeClassRelationshipNodes st1 c) c"
    by (auto split: option.splits)
  from grows_entry[OF validateParents_grows[OF w ne] e] obtain e1 where
    "findClassRelationship st1 c = Some e1" by blast
  with st' miss show ?thesis by (simp add: find_remove_free)
qed

text \<open>
  \<^bold>\<open>C5.\<close> \<^verbatim>\<open>j9bcv_validateClassRelationships\<close> frees the nodes of the child's entry and the
  name of the entry, and then calls \<^verbatim>\<open>hashTableRemove\<close>, which looks the entry up by the name
  that was just freed (lines 1097-1099). When that lookup misses, the function returns no
  failed class and the entry is still in the table, with no node and no flag: here for the
  entry of \<^verbatim>\<open>App\<close> after \<^verbatim>\<open>Base\<close> was recorded as its parent and validated.
\<close>

theorem validated_entry_stays_in_table:
  "j9bcv_recordClassRelationship initialState ''App'' ''Base'' = (True, BCV_SUCCESS, stateAppBase)
   \<and> j9bcv_validateClassRelationships staleVM stateAppBase ''App'' classApp
       = Inr (None, stateAppEmpty)
   \<and> findClassRelationship stateAppEmpty ''App''
       = Some \<lparr>className = ''App'', root = [], flags = 0\<rparr>"
proof -
  have r: "j9bcv_recordClassRelationship initialState ''App'' ''Base'' = (True, BCV_SUCCESS, stateAppBase)"
    by (simp add: eval_defs stateAppBase_def)
  have v: "j9bcv_validateClassRelationships staleVM stateAppBase ''App'' classApp
       = Inr (None, stateAppEmpty)"
    by (simp add: eval_defs staleVM_def stateAppBase_def stateAppEmpty_def)
  have f: "findClassRelationship stateAppEmpty ''App''
       = Some \<lparr>className = ''App'', root = [], flags = 0\<rparr>"
    by (simp add: findClassRelationship_def stateAppEmpty_def)
  from r v f show ?thesis by simp
qed

lemma allocate_no_failure:
  assumes "False \<notin> set (allocs st)" and "allocate st = (ok, st')"
  shows "ok \<and> False \<notin> set (allocs st')"
  using assms by (cases "allocs st") (auto simp: allocate_def)

lemma allocate_failure:
  assumes "allocate st = (False, st')"
  shows "False \<in> set (allocs st)"
  using assms by (cases "allocs st") (auto simp: allocate_def)

lemma allocate_allocs_subset:
  assumes "allocate st = (ok, st')"
  shows "set (allocs st') \<subseteq> set (allocs st)"
  using assms by (cases "allocs st") (auto simp: allocate_def)

lemma recordSnippet_result:
  assumes "j9bcv_recordClassRelationshipSnippet st c p = (r, rc, st')"
  shows "(r \<longleftrightarrow> (c, p) \<notin> set (snippetEntries st) \<and> rc = BCV_SUCCESS)
       \<and> (rc = BCV_SUCCESS \<longrightarrow>
            classRelationshipSnippetsHashTable st' \<noteq> None
            \<and> snippetEntries st' =
                (if (c, p) \<in> set (snippetEntries st) then snippetEntries st
                 else snippetEntries st @ [(c, p)]))
       \<and> (rc \<noteq> BCV_SUCCESS \<longrightarrow>
            rc = BCV_ERR_INSUFFICIENT_MEMORY \<and> False \<in> set (allocs st)
            \<and> snippetEntries st' = snippetEntries st)
       \<and> set (allocs st') \<subseteq> set (allocs st)
       \<and> classRelationshipsHashTable st' = classRelationshipsHashTable st
       \<and> classRelationshipsPool st' = classRelationshipsPool st
       \<and> trace st' = trace st"
proof (cases "classRelationshipSnippetsHashTable st")
  case None
  obtain ok st1 where a: "allocate st = (ok, st1)" by (cases "allocate st") auto
  from allocateE[OF a] obtain as where st1: "st1 = st\<lparr>allocs := as\<rparr>" by blast
  show ?thesis
  proof (cases ok)
    case False
    with a have "False \<in> set (allocs st)" using allocate_failure[of st st1] by simp
    with assms None a False st1 allocate_allocs_subset[OF a] show ?thesis
      by (auto simp: j9bcv_recordClassRelationshipSnippet_def
            allocateClassRelationshipSnippetsHashTable_def snippetEntries_def)
  next
    case True
    let ?st0 = "st1\<lparr>classRelationshipSnippetsHashTable := Some []\<rparr>"
    obtain ok2 st2 where a2: "allocate ?st0 = (ok2, st2)" by (cases "allocate ?st0") auto
    from allocateE[OF a2] obtain as2 where st2: "st2 = ?st0\<lparr>allocs := as2\<rparr>" by blast
    have sub: "set (allocs st2) \<subseteq> set (allocs st)"
      using allocate_allocs_subset[OF a] allocate_allocs_subset[OF a2] by auto
    have fail: "\<not> ok2 \<Longrightarrow> False \<in> set (allocs st)"
      using allocate_failure[of ?st0 st2] a2 allocate_allocs_subset[OF a] by auto
    from assms None a True a2 st1 st2 sub fail show ?thesis
      by (auto simp: j9bcv_recordClassRelationshipSnippet_def
            allocateClassRelationshipSnippetsHashTable_def snippetEntries_def Let_def
            split: if_splits)
  qed
next
  case (Some entries)
  obtain ok2 st2 where a2: "allocate st = (ok2, st2)" by (cases "allocate st") auto
  from allocateE[OF a2] obtain as2 where st2: "st2 = st\<lparr>allocs := as2\<rparr>" by blast
  have sub: "set (allocs st2) \<subseteq> set (allocs st)"
    using allocate_allocs_subset[OF a2] by auto
  have fail: "\<not> ok2 \<Longrightarrow> False \<in> set (allocs st)"
    using allocate_failure[of st st2] a2 by auto
  from assms Some a2 st2 sub fail show ?thesis
    by (auto simp: j9bcv_recordClassRelationshipSnippet_def snippetEntries_def Let_def
          split: if_splits)
qed

lemma recordSnippets_result:
  assumes "recordSnippets st0 reqs = (rcs, st)" and "distinct (snippetEntries st0)"
  shows "length rcs = length reqs \<and> distinct (snippetEntries st)
       \<and> set (snippetEntries st) =
           set (snippetEntries st0)
           \<union> set (map fst (filter (\<lambda>x. snd x = BCV_SUCCESS) (zip reqs rcs)))
       \<and> (False \<notin> set (allocs st0) \<longrightarrow> set rcs \<subseteq> {BCV_SUCCESS})"
  using assms
proof (induction reqs arbitrary: st0 rcs)
  case Nil
  then show ?case by simp
next
  case (Cons q reqs)
  obtain r rc st1 where r: "j9bcv_recordClassRelationshipSnippet st0 (fst q) (snd q) = (r, rc, st1)"
    by (cases "j9bcv_recordClassRelationshipSnippet st0 (fst q) (snd q)") auto
  obtain rcs' st2 where rest: "recordSnippets st1 reqs = (rcs', st2)"
    by (cases "recordSnippets st1 reqs") auto
  from Cons.prems(1) r rest have eq: "rcs = rc # rcs'" "st = st2" by simp_all
  from rest eq have rest: "recordSnippets st1 reqs = (rcs', st)" by simp
  note R = recordSnippet_result[OF r]
  have d1: "distinct (snippetEntries st1)"
    using R Cons.prems(2) by (cases "rc = BCV_SUCCESS") (auto split: if_splits)
  note IH = Cons.IH[OF rest d1]
  have s1: "set (snippetEntries st1) =
        set (snippetEntries st0) \<union> (if rc = BCV_SUCCESS then {q} else {})"
    using R by (cases "rc = BCV_SUCCESS") (auto split: if_splits)
  have nf: "False \<notin> set (allocs st0) \<Longrightarrow> rc = BCV_SUCCESS \<and> False \<notin> set (allocs st1)"
    using R by auto
  from IH s1 nf eq show ?case by auto
qed

text \<open>
  \<^bold>\<open>C8.\<close> \<^verbatim>\<open>j9bcv_recordClassRelationshipSnippet\<close> returns \<^verbatim>\<open>TRUE\<close> exactly when the pair is
  not in the table and the call succeeds; a call that succeeds leaves a table (created on the
  first call) that holds the pair, added at most once; a call fails only with
  \<^verbatim>\<open>BCV_ERR_INSUFFICIENT_MEMORY\<close>, only when a request for memory fails, and leaves the entries
  as they are. So after any sequence of calls on a fresh table the number of entries is the
  number of distinct pairs of the calls that succeeded, which is the number of distinct pairs
  of all calls when no request for memory fails.
\<close>

theorem recordSnippet_adds_absent_pairs:
  "(j9bcv_recordClassRelationshipSnippet st c p = (r, rc, st')
    \<longrightarrow> (r \<longleftrightarrow> (c, p) \<notin> set (snippetEntries st) \<and> rc = BCV_SUCCESS)
       \<and> (rc = BCV_SUCCESS \<longrightarrow>
            classRelationshipSnippetsHashTable st' \<noteq> None
            \<and> snippetEntries st' =
                (if (c, p) \<in> set (snippetEntries st) then snippetEntries st
                 else snippetEntries st @ [(c, p)]))
       \<and> (rc \<noteq> BCV_SUCCESS \<longrightarrow>
            rc = BCV_ERR_INSUFFICIENT_MEMORY \<and> False \<in> set (allocs st)
            \<and> snippetEntries st' = snippetEntries st))
   \<and> (classRelationshipSnippetsHashTable st0 = None \<and> recordSnippets st0 reqs = (rcs, st1)
      \<longrightarrow> length (snippetEntries st1)
            = card (set (map fst (filter (\<lambda>x. snd x = BCV_SUCCESS) (zip reqs rcs))))
        \<and> (False \<notin> set (allocs st0) \<longrightarrow> length (snippetEntries st1) = card (set reqs)))"
proof (intro conjI impI)
  assume a: "j9bcv_recordClassRelationshipSnippet st c p = (r, rc, st')"
  note R = recordSnippet_result[OF a]
  from R show "r \<longleftrightarrow> (c, p) \<notin> set (snippetEntries st) \<and> rc = BCV_SUCCESS" by blast
  {
    assume "rc = BCV_SUCCESS"
    with R show "classRelationshipSnippetsHashTable st' \<noteq> None" by blast
    from R \<open>rc = BCV_SUCCESS\<close> show "snippetEntries st' =
                (if (c, p) \<in> set (snippetEntries st) then snippetEntries st
                 else snippetEntries st @ [(c, p)])" by blast
  }
  {
    assume "rc \<noteq> BCV_SUCCESS"
    with R show "rc = BCV_ERR_INSUFFICIENT_MEMORY" "False \<in> set (allocs st)"
      "snippetEntries st' = snippetEntries st" by blast+
  }
next
  assume a: "classRelationshipSnippetsHashTable st0 = None \<and> recordSnippets st0 reqs = (rcs, st1)"
  then have e0: "snippetEntries st0 = []" by (simp add: snippetEntries_def)
  from a have rs: "recordSnippets st0 reqs = (rcs, st1)" by simp
  from recordSnippets_result[OF rs] e0
  have R: "length rcs = length reqs" "distinct (snippetEntries st1)"
    "set (snippetEntries st1) = set (map fst (filter (\<lambda>x. snd x = BCV_SUCCESS) (zip reqs rcs)))"
    "False \<notin> set (allocs st0) \<longrightarrow> set rcs \<subseteq> {BCV_SUCCESS}"
    by simp_all
  from R(2,3) show len: "length (snippetEntries st1)
            = card (set (map fst (filter (\<lambda>x. snd x = BCV_SUCCESS) (zip reqs rcs))))"
    by (metis distinct_card)
  {
    assume "False \<notin> set (allocs st0)"
    with R(4) have all: "\<forall>x \<in> set (zip reqs rcs). snd x = BCV_SUCCESS"
      by (auto dest: set_zip_rightD)
    then have "filter (\<lambda>x. snd x = BCV_SUCCESS) (zip reqs rcs) = zip reqs rcs"
      by (simp add: filter_id_conv)
    with R(1) have "map fst (filter (\<lambda>x. snd x = BCV_SUCCESS) (zip reqs rcs)) = reqs"
      by simp
    with len show "length (snippetEntries st1) = card (set reqs)" by simp
  }
qed

lemmas snippet_eval_defs = j9bcv_recordClassRelationshipSnippet_def
  allocateClassRelationshipSnippetsHashTable_def snippetEntries_def allocate_def initialState_def
  Let_def

theorem recordSnippet_adds_absent_pairs_witness:
  "j9bcv_recordClassRelationshipSnippet initialState 1 2
     = (True, BCV_SUCCESS, initialState\<lparr>classRelationshipSnippetsHashTable := Some [(1, 2)]\<rparr>)
   \<and> recordSnippets initialState [(1, 2), (1, 2), (2, 1)]
     = ([BCV_SUCCESS, BCV_SUCCESS, BCV_SUCCESS],
        initialState\<lparr>classRelationshipSnippetsHashTable := Some [(1, 2), (2, 1)]\<rparr>)
   \<and> length (snippetEntries (initialState\<lparr>classRelationshipSnippetsHashTable := Some [(1, 2), (2, 1)]\<rparr>))
     = card (set [(1 :: nat, 2 :: nat), (1, 2), (2, 1)])"
proof -
  let ?st1 = "initialState\<lparr>classRelationshipSnippetsHashTable := Some [(1, 2)]\<rparr>"
  let ?st2 = "initialState\<lparr>classRelationshipSnippetsHashTable := Some [(1, 2), (2, 1)]\<rparr>"
  have h1: "j9bcv_recordClassRelationshipSnippet initialState 1 2 = (True, BCV_SUCCESS, ?st1)"
    by (simp add: snippet_eval_defs)
  have h2: "classRelationshipSnippetsHashTable initialState = None
      \<and> recordSnippets initialState [(1, 2), (1, 2), (2, 1)]
          = ([BCV_SUCCESS, BCV_SUCCESS, BCV_SUCCESS], ?st2)"
    by (simp add: snippet_eval_defs)
  have h3: "False \<notin> set (allocs initialState)" by (simp add: initialState_def)
  from recordSnippet_adds_absent_pairs[of initialState 1 2 True BCV_SUCCESS ?st1 initialState
      "[(1, 2), (1, 2), (2, 1)]" "[BCV_SUCCESS, BCV_SUCCESS, BCV_SUCCESS]" ?st2] h1 h2 h3
  show ?thesis by simp
qed

lemma processNoCached_append:
  "processClassRelationshipSnippetsNoCachedData vm names (xs @ ys) rc st =
     (case processClassRelationshipSnippetsNoCachedData vm names xs rc st of
        (rc1, st1) \<Rightarrow>
          if xs \<noteq> [] \<and> rc1 \<noteq> BCV_SUCCESS then (rc1, st1)
          else processClassRelationshipSnippetsNoCachedData vm names ys rc1 st1)"
  by (induction xs arbitrary: rc st) (auto split: prod.splits)

lemma checkSnippet_interface:
  assumes "hashClassTableAt vm parent = Some parentClass" and "romIsInterface parentClass"
  shows "checkSnippetRelationship vm st child parent
           = (BCV_SUCCESS, st\<lparr>trace := trace st @ [ParentClassIsInterface parent]\<rparr>)"
  using assms by (simp add: checkSnippetRelationship_def)

lemma checkSnippet_violation:
  assumes "hashClassTableAt vm parent = Some parentClass" and "\<not> romIsInterface parentClass"
    and "hashClassTableAt vm child = Some childClass"
    and "\<not> isSameOrSuperClassOf vm parentClass childClass"
  shows "checkSnippetRelationship vm st child parent
           = (BCV_ERR_INTERNAL_ERROR, st\<lparr>trace := trace st @ [InvalidRelationship parent]\<rparr>)"
  using assms by (simp add: checkSnippetRelationship_def)

lemma processCached_add:
  "processCachedSnippets vm blob (k + m) i rc st =
     (case processCachedSnippets vm blob k i rc st of
        Inl a \<Rightarrow> Inl a
      | Inr (rc1, st1) \<Rightarrow>
          if k \<noteq> 0 \<and> rc1 \<noteq> BCV_SUCCESS then Inr (rc1, st1)
          else processCachedSnippets vm blob m (i + k) rc1 st1)"
  by (induction k arbitrary: i rc st) (auto split: sum.splits prod.splits)

text \<open>
  \<^bold>\<open>C3.\<close> For a snippet whose parent is loaded and is an interface,
  \<^verbatim>\<open>checkSnippetRelationship\<close> returns \<^verbatim>\<open>BCV_SUCCESS\<close> and changes nothing but the trace: the
  table, the pool and the memory are as before, whatever the hierarchy predicate says and
  whether the child is loaded or not.
\<close>

theorem interface_parent_is_accepted:
  assumes "hashClassTableAt vm parent = Some parentClass" and "romIsInterface parentClass"
  shows "checkSnippetRelationship vm st child parent
           = (BCV_SUCCESS, st\<lparr>trace := trace st @ [ParentClassIsInterface parent]\<rparr>)
       \<and> classRelationshipsHashTable (snd (checkSnippetRelationship vm st child parent))
           = classRelationshipsHashTable st
       \<and> classRelationshipsPool (snd (checkSnippetRelationship vm st child parent))
           = classRelationshipsPool st
       \<and> allocs (snd (checkSnippetRelationship vm st child parent)) = allocs st"
  using checkSnippet_interface[OF assms] by simp

theorem interface_parent_is_accepted_witness:
  "hashClassTableAt exampleVM ''java/io/Serializable'' = Some classSerializable
   \<and> romIsInterface classSerializable
   \<and> hashClassTableAt exampleVM ''App'' = None
   \<and> checkSnippetRelationship exampleVM initialState ''App'' ''java/io/Serializable''
       = (BCV_SUCCESS,
          initialState\<lparr>trace := [ParentClassIsInterface ''java/io/Serializable'']\<rparr>)
   \<and> classRelationshipsHashTable
         (snd (checkSnippetRelationship exampleVM initialState ''App'' ''java/io/Serializable''))
       = None"
proof -
  have h1: "hashClassTableAt exampleVM ''java/io/Serializable'' = Some classSerializable"
    by (simp add: exampleVM_def)
  have h2: "romIsInterface classSerializable" by (simp add: classSerializable_def)
  have h3: "hashClassTableAt exampleVM ''App'' = None" by (simp add: exampleVM_def)
  from interface_parent_is_accepted[OF h1 h2, of initialState "''App''"] h1 h2 h3
  show ?thesis by (simp add: initialState_def)
qed

text \<open>
  \<^bold>\<open>C6.\<close> When the snippets before a snippet are processed without an error and that snippet
  has both classes loaded, a parent that is no interface and a failing hierarchy check, then
  \<^verbatim>\<open>j9bcv_processClassRelationshipSnippets\<close> returns \<^verbatim>\<open>BCV_ERR_INTERNAL_ERROR\<close> with the state
  as the earlier snippets left it, and the trace ends with the invalid relationship that names
  the parent. The result does not depend on the snippets that follow: none of them is
  evaluated. This holds for the snippets of the local table and for those of cached data.
\<close>

theorem first_violation_stops_processing:
  "(classRelationshipSnippetsHashTable st = Some (pre @ (c, p) # post)
      \<and> processClassRelationshipSnippetsNoCachedData vm names pre BCV_SUCCESS st = (BCV_SUCCESS, st1)
      \<and> hashClassTableAt vm (names p) = Some parentClass \<and> \<not> romIsInterface parentClass
      \<and> hashClassTableAt vm (names c) = Some childClass
      \<and> \<not> isSameOrSuperClassOf vm parentClass childClass
    \<longrightarrow> j9bcv_processClassRelationshipSnippets vm names None st
          = Inr (BCV_ERR_INTERNAL_ERROR,
                 st1\<lparr>trace := trace st1 @ [InvalidRelationship (names p),
                                           ErrorWhileProcessing (names c) (names p)],
                     classRelationshipSnippetsHashTable := None\<rparr>))
   \<and> (readBytes blob 0 headerSize = Some header \<and> k < decodeLE header
        \<and> processCachedSnippets vm2 blob k 0 BCV_SUCCESS st2 = Inr (BCV_SUCCESS, st3)
        \<and> decodeSnippet blob k = Inr (childName, parentName)
        \<and> hashClassTableAt vm2 parentName = Some parentClass2 \<and> \<not> romIsInterface parentClass2
        \<and> hashClassTableAt vm2 childName = Some childClass2
        \<and> \<not> isSameOrSuperClassOf vm2 parentClass2 childClass2
      \<longrightarrow> j9bcv_processClassRelationshipSnippets vm2 names2 (Some blob) st2
            = Inr (BCV_ERR_INTERNAL_ERROR,
                   st3\<lparr>trace := trace st3 @ [InvalidRelationship parentName,
                                             ErrorWhileProcessing childName parentName]\<rparr>))"
proof (intro conjI impI)
  assume a: "classRelationshipSnippetsHashTable st = Some (pre @ (c, p) # post)
      \<and> processClassRelationshipSnippetsNoCachedData vm names pre BCV_SUCCESS st = (BCV_SUCCESS, st1)
      \<and> hashClassTableAt vm (names p) = Some parentClass \<and> \<not> romIsInterface parentClass
      \<and> hashClassTableAt vm (names c) = Some childClass
      \<and> \<not> isSameOrSuperClassOf vm parentClass childClass"
  then have l: "hashClassTableAt vm (names p) = Some parentClass" "\<not> romIsInterface parentClass"
    "hashClassTableAt vm (names c) = Some childClass"
    "\<not> isSameOrSuperClassOf vm parentClass childClass"
    by simp_all
  have v: "checkSnippetRelationship vm st1 (names c) (names p)
           = (BCV_ERR_INTERNAL_ERROR, st1\<lparr>trace := trace st1 @ [InvalidRelationship (names p)]\<rparr>)"
    by (rule checkSnippet_violation[OF l])
  from a have "processClassRelationshipSnippetsNoCachedData vm names (pre @ (c, p) # post) BCV_SUCCESS st
      = processClassRelationshipSnippetsNoCachedData vm names ((c, p) # post) BCV_SUCCESS st1"
    by (simp add: processNoCached_append)
  also have "\<dots> = (BCV_ERR_INTERNAL_ERROR,
                 st1\<lparr>trace := trace st1 @ [InvalidRelationship (names p),
                                           ErrorWhileProcessing (names c) (names p)]\<rparr>)"
    using v by simp
  finally show "j9bcv_processClassRelationshipSnippets vm names None st
          = Inr (BCV_ERR_INTERNAL_ERROR,
                 st1\<lparr>trace := trace st1 @ [InvalidRelationship (names p),
                                           ErrorWhileProcessing (names c) (names p)],
                     classRelationshipSnippetsHashTable := None\<rparr>)"
    using a by (simp add: j9bcv_processClassRelationshipSnippets_def)
next
  assume a: "readBytes blob 0 headerSize = Some header \<and> k < decodeLE header
        \<and> processCachedSnippets vm2 blob k 0 BCV_SUCCESS st2 = Inr (BCV_SUCCESS, st3)
        \<and> decodeSnippet blob k = Inr (childName, parentName)
        \<and> hashClassTableAt vm2 parentName = Some parentClass2 \<and> \<not> romIsInterface parentClass2
        \<and> hashClassTableAt vm2 childName = Some childClass2
        \<and> \<not> isSameOrSuperClassOf vm2 parentClass2 childClass2"
  then have l: "hashClassTableAt vm2 parentName = Some parentClass2" "\<not> romIsInterface parentClass2"
    "hashClassTableAt vm2 childName = Some childClass2"
    "\<not> isSameOrSuperClassOf vm2 parentClass2 childClass2"
    by simp_all
  have v: "checkSnippetRelationship vm2 st3 childName parentName
           = (BCV_ERR_INTERNAL_ERROR, st3\<lparr>trace := trace st3 @ [InvalidRelationship parentName]\<rparr>)"
    by (rule checkSnippet_violation[OF l])
  from a have "k < decodeLE header" by simp
  then obtain m where m: "decodeLE header = k + Suc m"
    by (auto simp: less_iff_Suc_add)
  from a have hd: "readBytes blob 0 headerSize = Some header"
    and pk: "processCachedSnippets vm2 blob k 0 BCV_SUCCESS st2 = Inr (BCV_SUCCESS, st3)"
    and dk: "decodeSnippet blob k = Inr (childName, parentName)"
    by simp_all
  have "processCachedSnippets vm2 blob (k + Suc m) 0 BCV_SUCCESS st2
      = processCachedSnippets vm2 blob (Suc m) k BCV_SUCCESS st3"
    by (simp only: processCached_add pk) simp
  also have "\<dots> = Inr (BCV_ERR_INTERNAL_ERROR,
                   st3\<lparr>trace := trace st3 @ [InvalidRelationship parentName,
                                             ErrorWhileProcessing childName parentName]\<rparr>)"
    by (simp add: dk v)
  finally have loop: "processCachedSnippets vm2 blob (decodeLE header) 0 BCV_SUCCESS st2
      = Inr (BCV_ERR_INTERNAL_ERROR,
                   st3\<lparr>trace := trace st3 @ [InvalidRelationship parentName,
                                             ErrorWhileProcessing childName parentName]\<rparr>)"
    by (simp only: m)
  show "j9bcv_processClassRelationshipSnippets vm2 names2 (Some blob) st2
            = Inr (BCV_ERR_INTERNAL_ERROR,
                   st3\<lparr>trace := trace st3 @ [InvalidRelationship parentName,
                                             ErrorWhileProcessing childName parentName]\<rparr>)"
    by (simp add: j9bcv_processClassRelationshipSnippets_def
          processClassRelationshipSnippetsUsingCachedData_def hd loop)
qed

lemma exampleBlob_header: "readBytes exampleBlob 0 headerSize = Some (encodeLE 8 1)"
  by code_simp

lemma exampleBlob_count: "decodeLE (encodeLE 8 1) = 1"
  by code_simp

lemma exampleBlob_snippet: "decodeSnippet exampleBlob 0 = Inr (''App'', ''Base'')"
  by code_simp

lemma exampleNames_values:
  "exampleNames 0 = ''App''" "exampleNames 1 = ''Base''" "exampleNames 2 = ''java/io/Serializable''"
  "exampleNames (Suc 0) = ''Base''"
  by (simp_all add: exampleNames_def)

lemma loadedVM_values:
  "hashClassTableAt loadedVM ''Base'' = Some classBase"
  "hashClassTableAt loadedVM ''App'' = Some classApp"
  "hashClassTableAt loadedVM ''java/io/Serializable'' = Some classSerializable"
  "\<not> romIsInterface classBase" "romIsInterface classSerializable"
  "\<not> isSameOrSuperClassOf loadedVM classBase classApp"
  by (simp_all add: loadedVM_def classBase_def classApp_def classSerializable_def)

theorem first_violation_stops_processing_witness:
  "j9bcv_processClassRelationshipSnippets loadedVM exampleNames None
       (initialState\<lparr>classRelationshipSnippetsHashTable := Some [(0, 2), (0, 1), (1, 0)]\<rparr>)
     = Inr (BCV_ERR_INTERNAL_ERROR,
            initialState\<lparr>trace := [ParentClassIsInterface ''java/io/Serializable'',
                                   InvalidRelationship ''Base'',
                                   ErrorWhileProcessing ''App'' ''Base'']\<rparr>)
   \<and> j9bcv_processClassRelationshipSnippets loadedVM exampleNames (Some exampleBlob) initialState
     = Inr (BCV_ERR_INTERNAL_ERROR,
            initialState\<lparr>trace := [InvalidRelationship ''Base'',
                                   ErrorWhileProcessing ''App'' ''Base'']\<rparr>)"
proof -
  let ?st = "initialState\<lparr>classRelationshipSnippetsHashTable := Some [(0, 2), (0, 1), (1, 0)]\<rparr>"
  let ?st1 = "?st\<lparr>trace := trace ?st @ [ParentClassIsInterface ''java/io/Serializable'']\<rparr>"
  have t0: "trace initialState = []" by (simp add: initialState_def)
  have pre: "processClassRelationshipSnippetsNoCachedData loadedVM exampleNames [(0, 2)] BCV_SUCCESS ?st
          = (BCV_SUCCESS, ?st1)"
    using checkSnippet_interface[OF loadedVM_values(3) loadedVM_values(5), of ?st "''App''"]
    by (simp add: exampleNames_values)
  have h1: "classRelationshipSnippetsHashTable ?st = Some ([(0, 2)] @ (0, 1) # [(1, 0)])
      \<and> processClassRelationshipSnippetsNoCachedData loadedVM exampleNames [(0, 2)] BCV_SUCCESS ?st
          = (BCV_SUCCESS, ?st1)
      \<and> hashClassTableAt loadedVM (exampleNames 1) = Some classBase \<and> \<not> romIsInterface classBase
      \<and> hashClassTableAt loadedVM (exampleNames 0) = Some classApp
      \<and> \<not> isSameOrSuperClassOf loadedVM classBase classApp"
    using pre loadedVM_values by (simp add: exampleNames_values)
  have c0: "0 < decodeLE (encodeLE 8 1)" by (simp only: exampleBlob_count)
  have p0: "processCachedSnippets loadedVM exampleBlob 0 0 BCV_SUCCESS initialState
            = Inr (BCV_SUCCESS, initialState)" by simp
  have h2: "readBytes exampleBlob 0 headerSize = Some (encodeLE 8 1) \<and> 0 < decodeLE (encodeLE 8 1)
        \<and> processCachedSnippets loadedVM exampleBlob 0 0 BCV_SUCCESS initialState
            = Inr (BCV_SUCCESS, initialState)
        \<and> decodeSnippet exampleBlob 0 = Inr (''App'', ''Base'')
        \<and> hashClassTableAt loadedVM ''Base'' = Some classBase \<and> \<not> romIsInterface classBase
        \<and> hashClassTableAt loadedVM ''App'' = Some classApp
        \<and> \<not> isSameOrSuperClassOf loadedVM classBase classApp"
    using exampleBlob_header c0 p0 exampleBlob_snippet loadedVM_values by simp
  note T = first_violation_stops_processing[of ?st "[(0, 2)]" 0 1 "[(1, 0)]" loadedVM exampleNames ?st1
      classBase classApp exampleBlob "encodeLE 8 1" 0 loadedVM initialState initialState
      "''App''" "''Base''" classBase classApp exampleNames]
  from conjunct1[OF T, THEN mp, OF h1] conjunct2[OF T, THEN mp, OF h2]
  have "j9bcv_processClassRelationshipSnippets loadedVM exampleNames None ?st
          = Inr (BCV_ERR_INTERNAL_ERROR,
                 ?st1\<lparr>trace := trace ?st1 @ [InvalidRelationship (exampleNames 1),
                                           ErrorWhileProcessing (exampleNames 0) (exampleNames 1)],
                     classRelationshipSnippetsHashTable := None\<rparr>)
    \<and> j9bcv_processClassRelationshipSnippets loadedVM exampleNames (Some exampleBlob) initialState
            = Inr (BCV_ERR_INTERNAL_ERROR,
                   initialState\<lparr>trace := trace initialState @ [InvalidRelationship ''Base'',
                                             ErrorWhileProcessing ''App'' ''Base'']\<rparr>)"
    by (rule conjI)
  then show ?thesis by (simp add: exampleNames_values t0) (simp add: initialState_def)
qed

section \<open>Lemmas on the data buffer and the round trip\<close>

lemma length_encodeLE [simp]: "length (encodeLE n v) = n"
  by (induction n arbitrary: v) auto

lemma decode_encodeLE: "decodeLE (encodeLE n v) = v mod 256 ^ n"
proof (induction n arbitrary: v)
  case 0
  then show ?case by simp
next
  case (Suc n)
  have "v mod 256 + 256 * (v div 256 mod 256 ^ n) = v mod (256 * 256 ^ n)"
    by (simp add: mod_mult2_eq)
  with Suc show ?case by simp
qed

lemma writeBytes_length:
  "writeBytes mem a bs = Some mem' \<Longrightarrow> length mem' = length mem"
  by (auto simp: writeBytes_def split: if_splits)

lemma writeBytes_bound:
  "writeBytes mem a bs = Some mem' \<Longrightarrow> a + length bs \<le> length mem"
  by (auto simp: writeBytes_def split: if_splits)

lemma read_after_write:
  "writeBytes mem a bs = Some mem' \<Longrightarrow> readBytes mem' a (length bs) = Some bs"
  by (auto simp: writeBytes_def readBytes_def split: if_splits)

lemma read_other_write:
  assumes "writeBytes mem a bs = Some mem'" and "b + n \<le> a \<or> a + length bs \<le> b"
  shows "readBytes mem' b n = readBytes mem b n"
proof -
  from assms(1) have bound: "a + length bs \<le> length mem"
    and mem': "mem' = take a mem @ bs @ drop (a + length bs) mem"
    by (auto simp: writeBytes_def split: if_splits)
  have len: "length mem' = length mem" using assms(1) by (rule writeBytes_length)
  show ?thesis
  proof (cases "b + n \<le> length mem")
    case False
    with len show ?thesis by (simp add: readBytes_def)
  next
    case True
    have "take n (drop b mem') = take n (drop b mem)"
    proof (rule nth_equalityI)
      show "length (take n (drop b mem')) = length (take n (drop b mem))" using len by simp
    next
      fix i assume "i < length (take n (drop b mem'))"
      then have i: "i < n" "b + i < length mem" using len by auto
      from assms(2) i have out: "b + i < a \<or> a + length bs \<le> b + i" by auto
      have "mem' ! (b + i) = mem ! (b + i)"
      proof (cases "b + i < a")
        case True
        then show ?thesis using bound by (simp add: mem' nth_append)
      next
        case False
        with out have ge: "a + length bs \<le> b + i" by simp
        have l: "length (take a mem @ bs) = a + length bs" using bound by simp
        have "mem' ! (b + i) = ((take a mem @ bs) @ drop (a + length bs) mem) ! (b + i)"
          by (simp add: mem')
        also have "\<dots> = drop (a + length bs) mem ! (b + i - (a + length bs))"
          using ge by (simp only: nth_append l) simp
        also have "\<dots> = mem ! (b + i)" using ge i bound by simp
        finally show ?thesis .
      qed
      with i len show "take n (drop b mem') ! i = take n (drop b mem) ! i" by simp
    qed
    with True len show ?thesis by (simp add: readBytes_def)
  qed
qed

lemma readBytes_split:
  assumes "readBytes mem a (length xs + length ys) = Some (xs @ ys)"
  shows "readBytes mem a (length xs) = Some xs \<and> readBytes mem (a + length xs) (length ys) = Some ys"
proof -
  from assms have b: "a + (length xs + length ys) \<le> length mem"
    and e: "take (length xs + length ys) (drop a mem) = xs @ ys"
    by (auto simp: readBytes_def split: if_splits)
  from e have "take (length xs) (take (length xs + length ys) (drop a mem)) = xs" by simp
  then have x: "take (length xs) (drop a mem) = xs" by (simp add: min_def)
  from e have "drop (length xs) (take (length xs + length ys) (drop a mem)) = ys" by simp
  then have y: "take (length ys) (drop (a + length xs) mem) = ys"
    by (simp add: drop_take add.commute)
  from b x y show ?thesis by (simp add: readBytes_def)
qed

lemma sameBytes_refl: "sameBytes mem mem lo hi"
  by (simp add: sameBytes_def)

lemma sameBytes_trans:
  "sameBytes m1 m2 lo hi \<Longrightarrow> sameBytes m2 m3 lo hi \<Longrightarrow> sameBytes m1 m3 lo hi"
  by (simp add: sameBytes_def)

lemma sameBytes_mono:
  "sameBytes m1 m2 lo hi \<Longrightarrow> lo \<le> lo' \<Longrightarrow> hi' \<le> hi \<Longrightarrow> sameBytes m1 m2 lo' hi'"
  by (simp add: sameBytes_def)

lemma sameBytes_write_above:
  assumes "writeBytes mem a bs = Some mem'"
  shows "sameBytes mem mem' 0 a"
  using assms read_other_write[OF assms] writeBytes_length[OF assms]
  by (simp add: sameBytes_def)

lemma sameBytes_write_below:
  assumes "writeBytes mem a bs = Some mem'" and "a + length bs \<le> lo"
  shows "sameBytes mem mem' lo hi"
  using assms read_other_write[OF assms(1)] writeBytes_length[OF assms(1)]
  by (simp add: sameBytes_def)

lemma sameBytes_utf8At:
  assumes "sameBytes mem mem' lo hi" and "utf8At mem a name" and "lo \<le> a"
    and "a + length name + 3 \<le> hi"
  shows "utf8At mem' a name"
  using assms by (simp add: sameBytes_def utf8At_def)

lemma utf8At_read:
  assumes "utf8At mem a name" and "length name < 65536"
  shows "readUTF8 mem a = Inr name"
proof -
  let ?l = "encodeLE 2 (length name)"
  let ?z = "[char_of (0 :: nat)]"
  have "length ?l + length (name @ ?z) = length name + 3" by simp
  with assms(1) have "readBytes mem a (length ?l + length (name @ ?z)) = Some (?l @ (name @ ?z))"
    by (simp only: utf8At_def)
  from readBytes_split[OF this]
  have l: "readBytes mem a 2 = Some ?l"
    and r: "readBytes mem (a + 2) (length name + length ?z) = Some (name @ ?z)"
    by simp_all
  from readBytes_split[OF r] have n: "readBytes mem (a + 2) (length name) = Some name" by simp
  have "decodeLE ?l = length name" using assms(2) by (simp add: decode_encodeLE)
  with l n show ?thesis by (simp add: readUTF8_def)
qed

lemma utf8At_bound: "utf8At mem a name \<Longrightarrow> a + length name + 3 \<le> length mem"
  by (auto simp: utf8At_def readBytes_def split: if_splits)

lemma sint_small: "n < 2 ^ 31 \<Longrightarrow> sint (word_of_nat n :: 32 word) = int n"
proof -
  assume a: "n < 2 ^ 31"
  then have b: "int n < 2 ^ 31" by (metis of_nat_less_iff of_nat_numeral of_nat_power)
  have u: "unat (word_of_nat n :: 32 word) = n"
    using a by (simp add: unat_of_nat take_bit_nat_eq_self)
  have "uint (word_of_nat n :: 32 word) = int (unat (word_of_nat n :: 32 word))"
    by simp
  then have ui: "uint (word_of_nat n :: 32 word) = int n" by (simp only: u)
  have "sint (word_of_nat n :: 32 word) = signed_take_bit 31 (uint (word_of_nat n :: 32 word))"
    by (simp add: sint_uint)
  also have "\<dots> = signed_take_bit 31 (int n)" by (simp only: ui)
  also have "\<dots> = int n"
    using b by (intro signed_take_bit_int_eq_self) auto
  finally show ?thesis .
qed

lemma srp_roundtrip:
  assumes "SRP_PTR_SET mem p t = Some mem'" and "p < t" and "t < 2 ^ 31"
  shows "SRP_GET mem' p = Inr (Some t)"
proof -
  let ?w = "word_of_int (int t - int p) :: 32 word"
  have d: "int t - int p = int (t - p)" using assms(2) by simp
  have lt: "t - p < 2 ^ 31" using assms(2,3) by simp
  then have lt32: "t - p < 2 ^ 32" by simp
  have u: "unat (word_of_int (int (t - p)) :: 32 word) = t - p"
    using lt32 by (simp add: unat_of_nat take_bit_nat_eq_self)
  from assms(1) have "writeBytes mem p (encodeLE 4 (unat (word_of_int (int (t - p)) :: 32 word))) = Some mem'"
    unfolding SRP_PTR_SET_def d .
  then have "writeBytes mem p (encodeLE 4 (t - p)) = Some mem'"
    by (simp only: u)
  from read_after_write[OF this] have r: "readBytes mem' p 4 = Some (encodeLE 4 (t - p))" by simp
  have dec: "decodeLE (encodeLE 4 (t - p)) = t - p"
    using lt32 by (simp add: decode_encodeLE)
  have s: "sint (word_of_nat (t - p) :: 32 word) = int (t - p)"
    using lt by (rule sint_small)
  from r dec s assms(2) show ?thesis
    by (simp add: SRP_GET_def Let_def)
qed

lemma setCurrent_result:
  assumes "setCurrentAndNextUTF8s names lo idx = (Some mem', sz)"
  shows "sz = length (names idx) + 3 \<and> utf8At mem' (nextUTF8Address lo) (names idx)
       \<and> sameBytes (dataBuffer lo) mem' 0 (nextUTF8Address lo)
       \<and> nextUTF8Address lo + sz \<le> length mem'"
proof -
  let ?bs = "encodeLE 2 (length (names idx)) @ names idx @ [char_of (0 :: nat)]"
  from assms have w: "writeBytes (dataBuffer lo) (nextUTF8Address lo) ?bs = Some mem'"
    and sz: "sz = length (names idx) + 3"
    by (simp_all add: setCurrentAndNextUTF8s_def Let_def)
  have l: "length ?bs = length (names idx) + 3" by simp
  from read_after_write[OF w] have "utf8At mem' (nextUTF8Address lo) (names idx)"
    by (simp only: utf8At_def l)
  moreover from writeBytes_bound[OF w] writeBytes_length[OF w]
  have "nextUTF8Address lo + sz \<le> length mem'" by (simp only: l sz)
  ultimately show ?thesis using sz sameBytes_write_above[OF w] by simp
qed

lemma goodLocals_frame_names:
  assumes "goodLocals names U lo"
    and "sameBytes (dataBuffer lo) mem' U (nextUTF8Address lo)"
    and "nextUTF8Address lo \<le> n'"
  shows "goodLocals names U (lo\<lparr>dataBuffer := mem', nextUTF8Address := n'\<rparr>)"
proof -
  have keep: "\<And>a name. utf8At (dataBuffer lo) a name \<Longrightarrow> U \<le> a
      \<Longrightarrow> a + length name + 3 \<le> nextUTF8Address lo \<Longrightarrow> utf8At mem' a name"
    using sameBytes_utf8At[OF assms(2)] by simp
  from assms(1) have U: "U \<le> nextUTF8Address lo"
    and A: "\<forall>entry \<in> set (classNamesArray lo).
            U \<le> snd entry
            \<and> snd entry + length (names (fst entry)) + 3 \<le> nextUTF8Address lo
            \<and> utf8At (dataBuffer lo) (snd entry) (names (fst entry))"
    and H: "\<forall>a \<in> set (classNamesHashTable lo).
            U \<le> a
            \<and> (\<exists>name. length name < 65536 \<and> a + length name + 3 \<le> nextUTF8Address lo
                 \<and> utf8At (dataBuffer lo) a name)"
    by (simp_all add: goodLocals_def)
  have A': "\<forall>entry \<in> set (classNamesArray lo).
            U \<le> snd entry
            \<and> snd entry + length (names (fst entry)) + 3 \<le> n'
            \<and> utf8At mem' (snd entry) (names (fst entry))"
    using A keep assms(3) by fastforce
  have H': "\<forall>a \<in> set (classNamesHashTable lo).
            U \<le> a
            \<and> (\<exists>name. length name < 65536 \<and> a + length name + 3 \<le> n'
                 \<and> utf8At mem' a name)"
  proof
    fix a assume "a \<in> set (classNamesHashTable lo)"
    with H obtain name where "U \<le> a" "length name < 65536"
      "a + length name + 3 \<le> nextUTF8Address lo" "utf8At (dataBuffer lo) a name" by blast
    with keep[of a name] assms(3)
    show "U \<le> a \<and> (\<exists>name. length name < 65536 \<and> a + length name + 3 \<le> n' \<and> utf8At mem' a name)"
      by (intro conjI exI[of _ name]) simp_all
  qed
  from U assms(3) A' H' show ?thesis by (simp add: goodLocals_def)
qed

lemma goodLocals_frame:
  assumes "goodLocals names U lo"
    and "sameBytes (dataBuffer lo) mem' 0 (nextUTF8Address lo)"
    and "nextUTF8Address lo \<le> n'"
  shows "goodLocals names U (lo\<lparr>dataBuffer := mem', nextUTF8Address := n'\<rparr>)"
  using goodLocals_frame_names[OF assms(1) sameBytes_mono[OF assms(2)] assms(3)] by simp

lemma getUTF8Address_ok:
  assumes "goodLocals names U lo" and "getUTF8Address names lo st idx = Inr (Some a, lo', st')"
  shows "addressResult names U idx lo a lo'"
proof -
  obtain m sz where sc: "setCurrentAndNextUTF8s names lo idx = (m, sz)"
    by (cases "setCurrentAndNextUTF8s names lo idx") auto
  with assms(2) obtain mem' where m: "m = Some mem'"
    by (cases m) (auto simp: getUTF8Address_def)
  from assms(2) sc m have a: "a = nextUTF8Address lo"
    and lo': "lo' = lo\<lparr>dataBuffer := mem', nextUTF8Address := nextUTF8Address lo + sz\<rparr>"
    by (auto simp: getUTF8Address_def)
  from setCurrent_result[OF sc[unfolded m]]
  have R: "sz = length (names idx) + 3" "utf8At mem' (nextUTF8Address lo) (names idx)"
    "sameBytes (dataBuffer lo) mem' 0 (nextUTF8Address lo)" by simp_all
  from goodLocals_frame[OF assms(1) R(3), of "nextUTF8Address lo + sz"]
  have "goodLocals names U lo'" by (simp add: lo')
  moreover from assms(1) have "U \<le> nextUTF8Address lo" by (simp add: goodLocals_def)
  ultimately show ?thesis using R a by (simp add: addressResult_def lo')
qed

lemma find_SomeD: "find P xs = Some x \<Longrightarrow> x \<in> set xs \<and> P x"
  by (induction xs) (auto split: if_splits)

lemma getUTF8AddressFromArray_ok:
  assumes "goodLocals names U lo"
    and "getUTF8AddressFromArray names asz tot lo st idx = Inr (Some a, lo', st')"
  shows "addressResult names U idx lo a lo'"
proof (cases "find (\<lambda>entry. fst entry = idx) (take tot (classNamesArray lo))")
  case (Some entry)
  then have "entry \<in> set (take tot (classNamesArray lo))" and f: "fst entry = idx"
    by (auto dest: find_SomeD)
  then have mem: "entry \<in> set (classNamesArray lo)" by (auto dest: in_set_takeD)
  from assms(2) Some have "a = snd entry" "lo' = lo"
    by (simp_all add: getUTF8AddressFromArray_def)
  with assms(1) mem f show ?thesis
    by (auto simp: addressResult_def goodLocals_def sameBytes_refl)
next
  case None
  obtain ok st1 where al: "allocate st = (ok, st1)" by (cases "allocate st") auto
  obtain m sz where sc: "setCurrentAndNextUTF8s names lo idx = (m, sz)"
    by (cases "setCurrentAndNextUTF8s names lo idx") auto
  from assms(2) None al have ok: ok
    by (cases ok) (auto simp: getUTF8AddressFromArray_def)
  with assms(2) None al sc obtain mem' where m: "m = Some mem'"
    by (cases m) (auto simp: getUTF8AddressFromArray_def)
  let ?i = "min (length (classNamesArray lo)) tot"
  let ?e = "(idx, nextUTF8Address lo)"
  let ?arr = "if ?i < length (classNamesArray lo) then (classNamesArray lo)[?i := ?e]
              else classNamesArray lo @ [?e]"
  from assms(2) None al ok sc m have a: "a = nextUTF8Address lo"
    and lo': "lo' = lo\<lparr>dataBuffer := mem', classNamesArray := ?arr,
                        nextUTF8Address := nextUTF8Address lo + sz\<rparr>"
    by (auto simp: getUTF8AddressFromArray_def Let_def split: if_splits)
  from setCurrent_result[OF sc[unfolded m]]
  have R: "sz = length (names idx) + 3" "utf8At mem' (nextUTF8Address lo) (names idx)"
    "sameBytes (dataBuffer lo) mem' 0 (nextUTF8Address lo)" by simp_all
  from goodLocals_frame[OF assms(1) R(3), of "nextUTF8Address lo + sz"]
  have g: "goodLocals names U (lo\<lparr>dataBuffer := mem', nextUTF8Address := nextUTF8Address lo + sz\<rparr>)"
    by simp
  from assms(1) have U: "U \<le> nextUTF8Address lo" by (simp add: goodLocals_def)
  have sub: "set ?arr \<subseteq> insert ?e (set (classNamesArray lo))"
    using set_update_subset_insert[of "classNamesArray lo" ?i ?e] by auto
  have "goodLocals names U lo'"
    unfolding goodLocals_def
  proof (intro conjI ballI)
    show "U \<le> nextUTF8Address lo'" using U by (simp add: lo')
  next
    fix entry assume "entry \<in> set (classNamesArray lo')"
    with sub have "entry = ?e \<or> entry \<in> set (classNamesArray lo)" by (auto simp: lo')
    then show "U \<le> snd entry" 
      "snd entry + length (names (fst entry)) + 3 \<le> nextUTF8Address lo'"
      "utf8At (dataBuffer lo') (snd entry) (names (fst entry))"
      using g U R by (auto simp: goodLocals_def lo')
  next
    fix b assume "b \<in> set (classNamesHashTable lo')"
    then show "U \<le> b"
      "\<exists>name. length name < 65536 \<and> b + length name + 3 \<le> nextUTF8Address lo'
          \<and> utf8At (dataBuffer lo') b name"
      using g by (auto simp: goodLocals_def lo')
  qed
  then show ?thesis using R a U by (simp add: addressResult_def lo')
qed

lemma getUTF8AddressFromHashTable_ok:
  assumes "goodLocals names U lo" and "length (names idx) < 65536"
    and "getUTF8AddressFromHashTable names lo st idx = Inr (Some a, lo', st')"
  shows "addressResult names U idx lo a lo'"
proof -
  obtain m sz where sc: "setCurrentAndNextUTF8s names lo idx = (m, sz)"
    by (cases "setCurrentAndNextUTF8s names lo idx") auto
  with assms(3) obtain mem1 where m: "m = Some mem1"
    by (cases m) (auto simp: getUTF8AddressFromHashTable_def)
  from setCurrent_result[OF sc[unfolded m]]
  have R: "sz = length (names idx) + 3" "utf8At mem1 (nextUTF8Address lo) (names idx)"
    "sameBytes (dataBuffer lo) mem1 0 (nextUTF8Address lo)" by simp_all
  from assms(1) have U: "U \<le> nextUTF8Address lo" by (simp add: goodLocals_def)
  show ?thesis
  proof (cases "find (\<lambda>entry. utf8Equal mem1 entry (nextUTF8Address lo)) (classNamesHashTable lo)")
    case None
    obtain ok st1 where al: "allocate st = (ok, st1)" by (cases "allocate st") auto
    from assms(3) sc m None al have ok: ok
      by (cases ok) (auto simp: getUTF8AddressFromHashTable_def)
    from assms(3) sc m None al ok have a: "a = nextUTF8Address lo"
      and lo': "lo' = lo\<lparr>dataBuffer := mem1,
                          classNamesHashTable := classNamesHashTable lo @ [nextUTF8Address lo],
                          nextUTF8Address := nextUTF8Address lo + sz\<rparr>"
      by (auto simp: getUTF8AddressFromHashTable_def)
    from goodLocals_frame[OF assms(1) R(3), of "nextUTF8Address lo + sz"]
    have g: "goodLocals names U (lo\<lparr>dataBuffer := mem1, nextUTF8Address := nextUTF8Address lo + sz\<rparr>)"
      by simp
    have "goodLocals names U lo'"
      unfolding goodLocals_def
    proof (intro conjI ballI)
      show "U \<le> nextUTF8Address lo'" using U by (simp add: lo')
    next
      fix entry assume "entry \<in> set (classNamesArray lo')"
      then show "U \<le> snd entry"
        "snd entry + length (names (fst entry)) + 3 \<le> nextUTF8Address lo'"
        "utf8At (dataBuffer lo') (snd entry) (names (fst entry))"
        using g by (auto simp: goodLocals_def lo')
    next
      fix b assume "b \<in> set (classNamesHashTable lo')"
      then consider "b \<in> set (classNamesHashTable lo)" | "b = nextUTF8Address lo"
        by (auto simp: lo')
      then have both: "U \<le> b \<and> (\<exists>name. length name < 65536 \<and> b + length name + 3 \<le> nextUTF8Address lo'
          \<and> utf8At (dataBuffer lo') b name)"
      proof cases
        case 1
        with g show ?thesis by (auto simp: goodLocals_def lo')
      next
        case 2
        with U R assms(2) show ?thesis
          by (intro conjI exI[of _ "names idx"]) (simp_all add: lo')
      qed
      from both show "U \<le> b" by simp
      from both show "\<exists>name. length name < 65536 \<and> b + length name + 3 \<le> nextUTF8Address lo'
          \<and> utf8At (dataBuffer lo') b name" by simp
    qed
    then show ?thesis using R a U by (simp add: addressResult_def lo')
  next
    case (Some entry)
    then have mem: "entry \<in> set (classNamesHashTable lo)"
      and eq: "utf8Equal mem1 entry (nextUTF8Address lo)"
      by (auto dest: find_SomeD)
    from assms(3) sc m Some obtain cleared where
      w: "writeBytes mem1 (nextUTF8Address lo) (replicate sz (char_of (0 :: nat))) = Some cleared"
      and a: "a = entry" and lo': "lo' = lo\<lparr>dataBuffer := cleared\<rparr>"
      by (auto simp: getUTF8AddressFromHashTable_def split: option.splits)
    from assms(1) mem obtain name where n: "U \<le> entry" "length name < 65536"
      "entry + length name + 3 \<le> nextUTF8Address lo" "utf8At (dataBuffer lo) entry name"
      by (auto simp: goodLocals_def)
    from sameBytes_utf8At[OF R(3) n(4) _ n(3)] have "utf8At mem1 entry name" by simp
    from utf8At_read[OF this n(2)] utf8At_read[OF R(2) assms(2)] eq
    have name: "name = names idx" by (simp add: utf8Equal_def)
    have sb: "sameBytes (dataBuffer lo) cleared 0 (nextUTF8Address lo)"
      using sameBytes_trans[OF R(3) sameBytes_write_above[OF w]] .
    from goodLocals_frame[OF assms(1) sb, of "nextUTF8Address lo"]
    have g: "goodLocals names U lo'" by (simp add: lo')
    from sameBytes_utf8At[OF sb n(4) _ n(3)] have "utf8At cleared entry name" by simp
    with g n name a sb show ?thesis by (simp add: addressResult_def lo')
  qed
qed

lemma getClassUTF8Address_ok:
  assumes "goodLocals names U lo" and "length (names idx) < 65536"
    and "getClassUTF8Address names cfg asz tot lo st idx = Inr (Some a, lo', st')"
  shows "addressResult names U idx lo a lo'"
  using assms getUTF8Address_ok getUTF8AddressFromArray_ok getUTF8AddressFromHashTable_ok
  by (simp add: getClassUTF8Address_def split: if_splits)

lemma sameBytes_SRP_GET:
  assumes "sameBytes mem mem' lo hi" and "lo \<le> p" and "p + 4 \<le> hi"
  shows "SRP_GET mem' p = SRP_GET mem p"
  using assms by (simp add: sameBytes_def SRP_GET_def)

lemma srp_write_frames:
  assumes "SRP_PTR_SET mem p t = Some mem'"
  shows "sameBytes mem mem' 0 p" and "p + 4 \<le> lo \<Longrightarrow> sameBytes mem mem' lo hi"
  using assms sameBytes_write_above[of mem p _ mem'] sameBytes_write_below[of mem p _ mem' lo hi]
  by (simp_all add: SRP_PTR_SET_def)

lemma storeSnippets_roundtrip:
  assumes "storeSnippets names cfg asz tot entries lo st = Inr (BCV_SUCCESS, loF, stF)"
    and "goodLocals names U lo"
    and "srpAddress lo + 8 * length entries \<le> U"
    and "\<forall>e \<in> set entries. length (names (fst e)) < 65536 \<and> length (names (snd e)) < 65536"
    and "length (dataBuffer lo) < 2 ^ 31"
  shows "sameBytes (dataBuffer lo) (dataBuffer loF) 0 (srpAddress lo)
       \<and> sameBytes (dataBuffer lo) (dataBuffer loF) U (nextUTF8Address lo)
       \<and> (\<forall>j < length entries.
            snippetAt (dataBuffer loF) (srpAddress lo + 8 * j)
              (names (fst (entries ! j))) (names (snd (entries ! j))))"
  using assms
proof (induction entries arbitrary: lo st)
  case Nil
  then show ?case by (simp add: sameBytes_refl)
next
  case (Cons e entries)
  let ?srp = "srpAddress lo"
  let ?mem = "dataBuffer lo"
  let ?c = "names (fst e)" and ?p = "names (snd e)"
  from Cons.prems(4) have lc: "length ?c < 65536" and lp: "length ?p < 65536" by simp_all
  from Cons.prems(3) have srpU: "?srp + 8 \<le> U" by simp
  from Cons.prems(2) have Un: "U \<le> nextUTF8Address lo" by (simp add: goodLocals_def)
  note run = Cons.prems(1)
  obtain ca lo1 st1 where g1: "getClassUTF8Address names cfg asz tot lo st (fst e) = Inr (Some ca, lo1, st1)"
    using run by (auto simp: split: sum.splits option.splits prod.splits)
  note A1 = getClassUTF8Address_ok[OF Cons.prems(2) lc g1, unfolded addressResult_def]
  obtain pa lo2 st2 where g2: "getClassUTF8Address names cfg asz tot lo1 st1 (snd e) = Inr (Some pa, lo2, st2)"
    using run g1 by (auto simp: split: sum.splits option.splits prod.splits)
  from A1 have G1: "goodLocals names U lo1" by simp
  note A2 = getClassUTF8Address_ok[OF G1 lp g2, unfolded addressResult_def]
  obtain m1 where w1: "SRP_PTR_SET (dataBuffer lo2) (srpAddress lo2) ca = Some m1"
    using run g1 g2 by (auto simp: split: option.splits)
  obtain m2 where w2: "SRP_PTR_SET m1 (srpAddress lo2 + offsetToNextSRP) pa = Some m2"
    using run g1 g2 w1 by (auto simp: split: option.splits)
  let ?lo3 = "lo2\<lparr>dataBuffer := m2, srpAddress := srpAddress lo2 + offsetToNextSRP + offsetToNextSRP\<rparr>"
  from run g1 g2 w1 w2 have rest: "storeSnippets names cfg asz tot entries ?lo3 st2 = Inr (BCV_SUCCESS, loF, stF)"
    by simp
  have srp2: "srpAddress lo2 = ?srp" using A1 A2 by simp
  have n01: "nextUTF8Address lo \<le> nextUTF8Address lo1" using A1 by simp
  have n12: "nextUTF8Address lo1 \<le> nextUTF8Address lo2" using A2 by simp
  have s01: "sameBytes ?mem (dataBuffer lo1) 0 (nextUTF8Address lo)" using A1 by simp
  have s12: "sameBytes (dataBuffer lo1) (dataBuffer lo2) 0 (nextUTF8Address lo1)" using A2 by simp
  have w1': "SRP_PTR_SET (dataBuffer lo2) ?srp ca = Some m1" using w1 srp2 by simp
  have w2': "SRP_PTR_SET m1 (?srp + 4) pa = Some m2" using w2 srp2 by (simp add: offsetToNextSRP_def)
  text \<open>The buffer below the snippet and the names stored so far are as before.\<close>
  have s02: "sameBytes ?mem (dataBuffer lo2) 0 (nextUTF8Address lo)"
    using sameBytes_trans[OF s01 sameBytes_mono[OF s12 le_refl n01]] .
  have lowA: "sameBytes (dataBuffer lo2) m1 0 ?srp" using srp_write_frames(1)[OF w1'] .
  have lowB: "sameBytes m1 m2 0 ?srp"
    using sameBytes_mono[OF srp_write_frames(1)[OF w2'], of 0 ?srp] by simp
  have low23: "sameBytes (dataBuffer lo2) m2 0 ?srp" using sameBytes_trans[OF lowA lowB] .
  have hiA: "\<And>hi. sameBytes (dataBuffer lo2) m1 U hi" using srp_write_frames(2)[OF w1'] srpU by simp
  have hiB: "\<And>hi. sameBytes m1 m2 U hi" using srp_write_frames(2)[OF w2'] srpU by simp
  have hi23: "\<And>hi. sameBytes (dataBuffer lo2) m2 U hi" using sameBytes_trans[OF hiA hiB] .
  have len2: "length m2 = length ?mem"
    using s02 low23 by (simp add: sameBytes_def)
  text \<open>The locals after the round.\<close>
  from A2 have G2: "goodLocals names U lo2" by simp
  from goodLocals_frame_names[OF G2 hi23 le_refl]
  have G3: "goodLocals names U ?lo3" by (simp add: goodLocals_def)
  have pre3: "srpAddress ?lo3 + 8 * length entries \<le> U"
    using Cons.prems(3) srp2 by (simp add: offsetToNextSRP_def)
  have names3: "\<forall>e \<in> set entries. length (names (fst e)) < 65536 \<and> length (names (snd e)) < 65536"
    using Cons.prems(4) by simp
  have len3: "length (dataBuffer ?lo3) < 2 ^ 31" using len2 Cons.prems(5) by simp
  note IH = Cons.IH[OF rest G3 pre3 names3 len3]
  have srp3: "srpAddress ?lo3 = ?srp + 8" using srp2 by (simp add: offsetToNextSRP_def)
  from IH have i1: "sameBytes m2 (dataBuffer loF) 0 (?srp + 8)"
    and i2: "sameBytes m2 (dataBuffer loF) U (nextUTF8Address lo2)"
    and i3: "\<forall>j < length entries.
            snippetAt (dataBuffer loF) (?srp + 8 + 8 * j)
              (names (fst (entries ! j))) (names (snd (entries ! j)))"
    by (simp_all add: srp3)
  text \<open>The two names of the snippet of this round.\<close>
  have ca: "U \<le> ca" "ca + length ?c + 3 \<le> nextUTF8Address lo1" "utf8At (dataBuffer lo1) ca ?c"
    using A1 by simp_all
  have pa: "U \<le> pa" "pa + length ?p + 3 \<le> nextUTF8Address lo2" "utf8At (dataBuffer lo2) pa ?p"
    using A2 by simp_all
  have ca2: "utf8At (dataBuffer lo2) ca ?c"
    using sameBytes_utf8At[OF s12 ca(3) _ ca(2)] by simp
  have caF: "utf8At (dataBuffer loF) ca ?c"
    using sameBytes_utf8At[OF i2 sameBytes_utf8At[OF hi23 ca2 ca(1) le_refl] ca(1)] ca(2) n12 by simp
  have paF: "utf8At (dataBuffer loF) pa ?p"
    using sameBytes_utf8At[OF i2 sameBytes_utf8At[OF hi23 pa(3) pa(1) le_refl] pa(1) pa(2)] .
  have lenF: "length (dataBuffer loF) = length ?mem" using i1 len2 by (simp add: sameBytes_def)
  have ca31: "ca < 2 ^ 31" using utf8At_bound[OF caF] lenF Cons.prems(5) by simp
  have pa31: "pa < 2 ^ 31" using utf8At_bound[OF paF] lenF Cons.prems(5) by simp
  have "SRP_GET m1 ?srp = Inr (Some ca)"
    using srp_roundtrip[OF w1' _ ca31] srpU ca(1) by simp
  then have "SRP_GET m2 ?srp = Inr (Some ca)"
    using sameBytes_SRP_GET[OF srp_write_frames(1)[OF w2'], of ?srp] by simp
  then have getc: "SRP_GET (dataBuffer loF) ?srp = Inr (Some ca)"
    using sameBytes_SRP_GET[OF i1, of ?srp] by simp
  have "SRP_GET m2 (?srp + 4) = Inr (Some pa)"
    using srp_roundtrip[OF w2' _ pa31] srpU pa(1) by simp
  then have getp: "SRP_GET (dataBuffer loF) (?srp + 4) = Inr (Some pa)"
    using sameBytes_SRP_GET[OF i1, of "?srp + 4"] by simp
  have first: "snippetAt (dataBuffer loF) ?srp ?c ?p"
    unfolding snippetAt_def
    using getc getp utf8At_read[OF caF lc] utf8At_read[OF paF lp] by blast
  text \<open>The three parts of the claim.\<close>
  have c1: "sameBytes ?mem (dataBuffer loF) 0 ?srp"
  proof -
    have "sameBytes ?mem (dataBuffer lo2) 0 ?srp"
      using sameBytes_mono[OF s02, of 0 ?srp] srpU Un by simp
    from sameBytes_trans[OF sameBytes_trans[OF this low23] sameBytes_mono[OF i1, of 0 ?srp]]
    show ?thesis by simp
  qed
  have c2: "sameBytes ?mem (dataBuffer loF) U (nextUTF8Address lo)"
  proof -
    have a: "sameBytes ?mem (dataBuffer lo2) U (nextUTF8Address lo)"
      using sameBytes_mono[OF s02, of U "nextUTF8Address lo"] by simp
    have b: "sameBytes m2 (dataBuffer loF) U (nextUTF8Address lo)"
      using sameBytes_mono[OF i2, of U "nextUTF8Address lo"] n01 n12 by simp
    from sameBytes_trans[OF sameBytes_trans[OF a hi23] b] show ?thesis .
  qed
  have c3: "\<forall>j < length (e # entries).
            snippetAt (dataBuffer loF) (?srp + 8 * j)
              (names (fst ((e # entries) ! j))) (names (snd ((e # entries) ! j)))"
  proof (intro allI impI)
    fix j assume j: "j < length (e # entries)"
    show "snippetAt (dataBuffer loF) (?srp + 8 * j)
              (names (fst ((e # entries) ! j))) (names (snd ((e # entries) ! j)))"
    proof (cases j)
      case 0
      with first show ?thesis by simp
    next
      case (Suc j')
      with j i3 have "snippetAt (dataBuffer loF) (?srp + 8 + 8 * j')
              (names (fst (entries ! j'))) (names (snd (entries ! j')))" by simp
      moreover have "?srp + 8 + 8 * j' = ?srp + 8 * j" using Suc by simp
      ultimately show ?thesis using Suc by simp
    qed
  qed
  from c1 c2 c3 show ?case by simp
qed

lemma snippetAt_decode:
  assumes "snippetAt blob (headerSize + i * snippetSize) c p"
  shows "decodeSnippet blob i = Inr (c, p)"
  using assms by (auto simp: snippetAt_def decodeSnippet_def offsetToNextSRP_def)

lemma decodeSnippetsFrom_ok:
  assumes "\<forall>j < length xs. snippetAt blob (headerSize + (i + j) * snippetSize) (fst (xs ! j)) (snd (xs ! j))"
  shows "decodeSnippetsFrom blob (length xs) i = Inr xs"
  using assms
proof (induction xs arbitrary: i)
  case Nil
  then show ?case by simp
next
  case (Cons x xs)
  from Cons.prems have "snippetAt blob (headerSize + (i + 0) * snippetSize) (fst ((x # xs) ! 0)) (snd ((x # xs) ! 0))"
    by blast
  then have h: "decodeSnippet blob i = Inr x" using snippetAt_decode[of blob i "fst x" "snd x"] by simp
  have "\<forall>j < length xs. snippetAt blob (headerSize + (Suc i + j) * snippetSize) (fst (xs ! j)) (snd (xs ! j))"
  proof (intro allI impI)
    fix j assume "j < length xs"
    then have "Suc j < length (x # xs)" by simp
    from Cons.prems[rule_format, OF this] show "snippetAt blob (headerSize + (Suc i + j) * snippetSize) (fst (xs ! j)) (snd (xs ! j))"
      by simp
  qed
  from Cons.IH[OF this] h show ?case by simp
qed

lemma storeToDataBuffer_roundtrip:
  assumes run: "storeToDataBuffer names threshold entries buffer headerSize
                  (headerSize + length entries * snippetSize) (length entries) st = Inr (BCV_SUCCESS, buffer1, st')"
    and names: "\<forall>e \<in> set entries. length (names (fst e)) < 65536 \<and> length (names (snd e)) < 65536"
    and len: "length buffer < 2 ^ 31"
  shows "readBytes buffer1 0 headerSize = readBytes buffer 0 headerSize
       \<and> decodeSnippetsFrom buffer1 (length entries) 0
           = Inr (map (\<lambda>e. (names (fst e), names (snd e))) entries)"
proof -
  let ?U = "headerSize + length entries * snippetSize"
  let ?lo = "\<lparr>dataBuffer = buffer, srpAddress = headerSize, nextUTF8Address = ?U,
              classNamesArray = [], classNamesHashTable = []\<rparr>"
  from run obtain cfg asz tot st1 lo1 where
    s: "storeSnippets names cfg asz tot entries ?lo st1 = Inr (BCV_SUCCESS, lo1, st')"
    and b: "buffer1 = dataBuffer lo1"
    by (auto simp: storeToDataBuffer_def Let_def split: prod.splits if_splits sum.splits)
  have G: "goodLocals names ?U ?lo" by (simp add: goodLocals_def)
  have pre: "srpAddress ?lo + 8 * length entries \<le> ?U" by (simp add: snippetSize_def)
  have len': "length (dataBuffer ?lo) < 2 ^ 31" using len by simp
  note R = storeSnippets_roundtrip[OF s G pre names len']
  from R have same: "sameBytes buffer buffer1 0 headerSize" using b by simp
  from R have at: "\<forall>j < length entries.
            snippetAt buffer1 (headerSize + 8 * j) (names (fst (entries ! j))) (names (snd (entries ! j)))"
    using b by simp
  have r: "readBytes buffer1 0 headerSize = readBytes buffer 0 headerSize"
    using same by (simp add: sameBytes_def)
  let ?xs = "map (\<lambda>e. (names (fst e), names (snd e))) entries"
  have "\<forall>j < length ?xs. snippetAt buffer1 (headerSize + (0 + j) * snippetSize) (fst (?xs ! j)) (snd (?xs ! j))"
    using at by (simp add: snippetSize_def mult.commute)
  from decodeSnippetsFrom_ok[OF this] have "decodeSnippetsFrom buffer1 (length entries) 0 = Inr ?xs"
    by simp
  with r show ?thesis by simp
qed

lemma writeBytes_succeeds:
  assumes "a + length bs \<le> length mem"
  shows "\<exists>mem'. writeBytes mem a bs = Some mem' \<and> length mem' = length mem"
  using assms by (simp add: writeBytes_def)

lemma setCurrent_succeeds:
  assumes "nextUTF8Address lo + length (names idx) + 3 \<le> length (dataBuffer lo)"
  shows "\<exists>mem. setCurrentAndNextUTF8s names lo idx = (Some mem, length (names idx) + 3)
           \<and> length mem = length (dataBuffer lo)"
proof -
  let ?bs = "encodeLE 2 (length (names idx)) @ names idx @ [char_of (0 :: nat)]"
  have "nextUTF8Address lo + length ?bs \<le> length (dataBuffer lo)" using assms by simp
  from writeBytes_succeeds[OF this] show ?thesis
    by (auto simp: setCurrentAndNextUTF8s_def Let_def)
qed

lemma allocate_succeeds:
  assumes "False \<notin> set (allocs st)"
  shows "\<exists>st'. allocate st = (True, st') \<and> False \<notin> set (allocs st')"
  using assms by (cases "allocs st") (auto simp: allocate_def)

lemma getUTF8Address_succeeds:
  assumes "nextUTF8Address lo + length (names idx) + 3 \<le> length (dataBuffer lo)"
  shows "\<exists>a lo'. getUTF8Address names lo st idx = Inr (Some a, lo', st)
           \<and> addressStored lo lo' (length (names idx))"
proof -
  from setCurrent_succeeds[of lo names idx] assms obtain mem where
    "setCurrentAndNextUTF8s names lo idx = (Some mem, length (names idx) + 3)"
    "length mem = length (dataBuffer lo)" by blast
  then show ?thesis by (simp add: getUTF8Address_def addressStored_def)
qed

lemma getUTF8AddressFromArray_succeeds:
  assumes "False \<notin> set (allocs st)"
    and "nextUTF8Address lo + length (names idx) + 3 \<le> length (dataBuffer lo)"
    and "length (classNamesArray lo) < asz"
  shows "\<exists>a lo' st'. getUTF8AddressFromArray names asz tot lo st idx = Inr (Some a, lo', st')
           \<and> False \<notin> set (allocs st') \<and> addressStored lo lo' (length (names idx))"
proof (cases "find (\<lambda>entry. fst entry = idx) (take tot (classNamesArray lo))")
  case (Some entry)
  then show ?thesis using assms(1) by (simp add: getUTF8AddressFromArray_def addressStored_def)
next
  case None
  from allocate_succeeds[OF assms(1)] obtain st1 where
    a: "allocate st = (True, st1)" "False \<notin> set (allocs st1)" by blast
  from setCurrent_succeeds[of lo names idx] assms(2) obtain mem where
    m: "setCurrentAndNextUTF8s names lo idx = (Some mem, length (names idx) + 3)"
    "length mem = length (dataBuffer lo)" by blast
  have i: "\<not> asz \<le> min (length (classNamesArray lo)) tot" using assms(3) by simp
  show ?thesis using None a m i
    by (simp add: getUTF8AddressFromArray_def addressStored_def Let_def)
qed

lemma getUTF8AddressFromHashTable_succeeds:
  assumes "False \<notin> set (allocs st)"
    and "nextUTF8Address lo + length (names idx) + 3 \<le> length (dataBuffer lo)"
  shows "\<exists>a lo' st'. getUTF8AddressFromHashTable names lo st idx = Inr (Some a, lo', st')
           \<and> False \<notin> set (allocs st') \<and> addressStored lo lo' (length (names idx))"
proof -
  from setCurrent_succeeds[of lo names idx] assms(2) obtain mem where
    m: "setCurrentAndNextUTF8s names lo idx = (Some mem, length (names idx) + 3)"
    "length mem = length (dataBuffer lo)" by blast
  show ?thesis
  proof (cases "find (\<lambda>entry. utf8Equal mem entry (nextUTF8Address lo)) (classNamesHashTable lo)")
    case None
    from allocate_succeeds[OF assms(1)] obtain st1 where
      a: "allocate st = (True, st1)" "False \<notin> set (allocs st1)" by blast
    show ?thesis using None a m
      by (simp add: getUTF8AddressFromHashTable_def addressStored_def)
  next
    case (Some entry)
    have "nextUTF8Address lo + length (replicate (length (names idx) + 3) (char_of (0 :: nat)))
            \<le> length mem" using assms(2) m(2) by simp
    from writeBytes_succeeds[OF this] obtain cleared where
      c: "writeBytes mem (nextUTF8Address lo) (replicate (length (names idx) + 3) (char_of (0 :: nat)))
            = Some cleared" "length cleared = length mem" by blast
    show ?thesis using Some m c assms(1)
      by (simp add: getUTF8AddressFromHashTable_def addressStored_def)
  qed
qed

lemma getClassUTF8Address_succeeds:
  assumes "False \<notin> set (allocs st)"
    and "nextUTF8Address lo + length (names idx) + 3 \<le> length (dataBuffer lo)"
    and "cfg = J9RELATIONSHIP_SNIPPET_USE_ARRAY \<longrightarrow> length (classNamesArray lo) < asz"
  shows "\<exists>a lo' st'. getClassUTF8Address names cfg asz tot lo st idx = Inr (Some a, lo', st')
           \<and> False \<notin> set (allocs st') \<and> addressStored lo lo' (length (names idx))"
proof (cases cfg)
  case J9RELATIONSHIP_SNIPPET_SINGLE
  then show ?thesis using getUTF8Address_succeeds[of lo names idx st] assms(1,2)
    by (auto simp: getClassUTF8Address_def)
next
  case J9RELATIONSHIP_SNIPPET_USE_ARRAY
  with assms(3) have "length (classNamesArray lo) < asz" by simp
  from getUTF8AddressFromArray_succeeds[of st lo names idx asz tot] assms(1,2) this J9RELATIONSHIP_SNIPPET_USE_ARRAY
  show ?thesis by (simp add: getClassUTF8Address_def)
next
  case J9RELATIONSHIP_SNIPPET_USE_HASHTABLE
  with getUTF8AddressFromHashTable_succeeds[of st lo names idx] assms(1,2)
  show ?thesis by (simp add: getClassUTF8Address_def)
qed

lemma SRP_PTR_SET_succeeds:
  assumes "p + 4 \<le> length mem"
  shows "\<exists>mem'. SRP_PTR_SET mem p t = Some mem' \<and> length mem' = length mem"
  using writeBytes_succeeds[of p "encodeLE 4 (unat (word_of_int (int t - int p) :: 32 word))" mem] assms
  by (simp add: SRP_PTR_SET_def)

lemma storeSnippets_succeeds:
  assumes "False \<notin> set (allocs st)"
    and "nextUTF8Address lo + getTotalUTF8Size names entries \<le> length (dataBuffer lo)"
    and "srpAddress lo + 8 * length entries \<le> length (dataBuffer lo)"
    and "\<forall>e \<in> set entries. length (names (fst e)) < 65535 \<and> length (names (snd e)) < 65535"
    and "cfg = J9RELATIONSHIP_SNIPPET_USE_ARRAY
           \<longrightarrow> length (classNamesArray lo) + 2 * length entries \<le> asz"
  shows "\<exists>loF stF. storeSnippets names cfg asz tot entries lo st = Inr (BCV_SUCCESS, loF, stF)"
  using assms
proof (induction entries arbitrary: lo st)
  case Nil
  then show ?case by simp
next
  case (Cons e entries)
  let ?lc = "length (names (fst e))" and ?lp = "length (names (snd e))"
  from Cons.prems(4) have lc: "?lc < 65535" and lp: "?lp < 65535" by simp_all
  then have total: "getTotalUTF8Size names (e # entries)
                      = (?lc + 3) + (?lp + 3) + getTotalUTF8Size names entries" by simp
  from Cons.prems(2) total
  have room: "nextUTF8Address lo + (?lc + 3) + (?lp + 3) + getTotalUTF8Size names entries
                \<le> length (dataBuffer lo)" by simp
  then have r1: "nextUTF8Address lo + ?lc + 3 \<le> length (dataBuffer lo)" by simp
  have a1: "cfg = J9RELATIONSHIP_SNIPPET_USE_ARRAY \<longrightarrow> length (classNamesArray lo) < asz"
    using Cons.prems(5) by auto
  from getClassUTF8Address_succeeds[of st lo names "fst e" cfg asz tot] Cons.prems(1) r1 a1 obtain ca lo1 st1 where
    g1: "getClassUTF8Address names cfg asz tot lo st (fst e) = Inr (Some ca, lo1, st1)"
    and al1: "False \<notin> set (allocs st1)" and s1: "addressStored lo lo1 ?lc" by blast
  have r2: "nextUTF8Address lo1 + ?lp + 3 \<le> length (dataBuffer lo1)"
    using s1 room by (simp add: addressStored_def)
  have a2: "cfg = J9RELATIONSHIP_SNIPPET_USE_ARRAY \<longrightarrow> length (classNamesArray lo1) < asz"
    using Cons.prems(5) s1 by (auto simp: addressStored_def)
  from getClassUTF8Address_succeeds[of st1 lo1 names "snd e" cfg asz tot] al1 r2 a2 obtain pa lo2 st2 where
    g2: "getClassUTF8Address names cfg asz tot lo1 st1 (snd e) = Inr (Some pa, lo2, st2)"
    and al2: "False \<notin> set (allocs st2)" and s2: "addressStored lo1 lo2 ?lp" by blast
  have srp2: "srpAddress lo2 = srpAddress lo" and len2: "length (dataBuffer lo2) = length (dataBuffer lo)"
    using s1 s2 by (simp_all add: addressStored_def)
  have "srpAddress lo2 + 4 \<le> length (dataBuffer lo2)" using Cons.prems(3) srp2 len2 by simp
  from SRP_PTR_SET_succeeds[OF this] obtain m1 where
    w1: "SRP_PTR_SET (dataBuffer lo2) (srpAddress lo2) ca = Some m1"
    and l1: "length m1 = length (dataBuffer lo2)" by blast
  have "srpAddress lo2 + offsetToNextSRP + 4 \<le> length m1"
    using Cons.prems(3) srp2 len2 l1 by (simp add: offsetToNextSRP_def)
  from SRP_PTR_SET_succeeds[OF this] obtain m2 where
    w2: "SRP_PTR_SET m1 (srpAddress lo2 + offsetToNextSRP) pa = Some m2"
    and l2: "length m2 = length m1" by blast
  let ?lo3 = "lo2\<lparr>dataBuffer := m2, srpAddress := srpAddress lo2 + offsetToNextSRP + offsetToNextSRP\<rparr>"
  have p2: "nextUTF8Address ?lo3 + getTotalUTF8Size names entries \<le> length (dataBuffer ?lo3)"
    using room s1 s2 l1 l2 by (simp add: addressStored_def)
  have p3: "srpAddress ?lo3 + 8 * length entries \<le> length (dataBuffer ?lo3)"
    using Cons.prems(3) srp2 len2 l1 l2 by (simp add: offsetToNextSRP_def)
  have p4: "\<forall>e \<in> set entries. length (names (fst e)) < 65535 \<and> length (names (snd e)) < 65535"
    using Cons.prems(4) by simp
  have p5: "cfg = J9RELATIONSHIP_SNIPPET_USE_ARRAY
           \<longrightarrow> length (classNamesArray ?lo3) + 2 * length entries \<le> asz"
    using Cons.prems(5) s1 s2 by (auto simp: addressStored_def)
  from Cons.IH[OF al2 p2 p3 p4 p5] obtain loF stF where
    "storeSnippets names cfg asz tot entries ?lo3 st2 = Inr (BCV_SUCCESS, loF, stF)" by blast
  with g1 g2 w1 w2 show ?case by simp
qed

lemma storeToDataBuffer_succeeds:
  assumes "False \<notin> set (allocs st)"
    and "length buffer = headerSize + length entries * snippetSize + getTotalUTF8Size names entries"
    and "\<forall>e \<in> set entries. length (names (fst e)) < 65535 \<and> length (names (snd e)) < 65535"
  shows "\<exists>buffer1 st'. storeToDataBuffer names threshold entries buffer headerSize
                  (headerSize + length entries * snippetSize) (length entries) st
                = Inr (BCV_SUCCESS, buffer1, st')"
proof -
  let ?n = "length entries"
  let ?lo = "\<lparr>dataBuffer = buffer, srpAddress = headerSize,
              nextUTF8Address = headerSize + ?n * snippetSize,
              classNamesArray = [], classNamesHashTable = []\<rparr>"
  let ?cfg = "if ?n = 1 then J9RELATIONSHIP_SNIPPET_SINGLE
              else if threshold < ?n then J9RELATIONSHIP_SNIPPET_USE_HASHTABLE
              else J9RELATIONSHIP_SNIPPET_USE_ARRAY"
  obtain st1 where t: "(if ?n \<noteq> 1 \<and> threshold < ?n then allocate st else (True, st)) = (True, st1)"
    and al: "False \<notin> set (allocs st1)"
    using allocate_succeeds[OF assms(1)] assms(1) by (cases "?n \<noteq> 1 \<and> threshold < ?n") auto
  have p2: "nextUTF8Address ?lo + getTotalUTF8Size names entries \<le> length (dataBuffer ?lo)"
    using assms(2) by simp
  have p3: "srpAddress ?lo + 8 * length entries \<le> length (dataBuffer ?lo)"
    using assms(2) by (simp add: snippetSize_def)
  have p5: "?cfg = J9RELATIONSHIP_SNIPPET_USE_ARRAY
           \<longrightarrow> length (classNamesArray ?lo) + 2 * length entries \<le> threshold * 2"
    by simp
  from storeSnippets_succeeds[OF al p2 p3 assms(3) p5, of "?n * 2"] obtain loF stF where
    "storeSnippets names ?cfg (threshold * 2) (?n * 2) entries ?lo st1 = Inr (BCV_SUCCESS, loF, stF)"
    by blast
  with t show ?thesis by (simp add: storeToDataBuffer_def Let_def)
qed

lemma store_succeeds:
  assumes "False \<notin> set (allocs st)" and "\<not> storeSharedDataFails cfg"
    and "\<forall>e \<in> set (snippetEntries st).
           length (names (fst e)) < 65535 \<and> length (names (snd e)) < 65535"
  shows "\<exists>cfg' st'. j9bcv_storeClassRelationshipSnippetsToSharedCache names threshold key cfg st
           = Inr (BCV_SUCCESS, cfg', st')"
proof (cases "snippetEntries st = []")
  case True
  then show ?thesis by (simp add: j9bcv_storeClassRelationshipSnippetsToSharedCache_def)
next
  case False
  let ?es = "snippetEntries st"
  let ?N = "headerSize + length ?es * snippetSize + getTotalUTF8Size names ?es"
  from allocate_succeeds[OF assms(1)] obtain st1 where
    a1: "allocate st = (True, st1)" "False \<notin> set (allocs st1)" by blast
  from allocate_succeeds[OF a1(2)] obtain st2 where
    a2: "allocate st1 = (True, st2)" "False \<notin> set (allocs st2)" by blast
  have "0 + length (encodeLE 8 (length ?es)) \<le> length (replicate ?N (char_of (0 :: nat)))"
    by (simp add: headerSize_def)
  from writeBytes_succeeds[OF this] obtain buffer where
    w: "writeBytes (replicate ?N (char_of (0 :: nat))) 0 (encodeLE 8 (length ?es)) = Some buffer"
    and l: "length buffer = ?N" by auto
  from storeToDataBuffer_succeeds[OF a2(2) l assms(3), of threshold] obtain buffer1 st3 where
    s: "storeToDataBuffer names threshold ?es buffer headerSize
          (headerSize + length ?es * snippetSize) (length ?es) st2 = Inr (BCV_SUCCESS, buffer1, st3)"
    by blast
  show ?thesis using False a1 a2 w s assms(2)
    by (simp add: j9bcv_storeClassRelationshipSnippetsToSharedCache_def Let_def)
qed

text \<open>
  The round trip of the cached data. For a snippet table that is not empty, whatever the
  threshold is (so with one \<^verbatim>\<open>J9UTF8\<close> per reference, with the array of class names or with
  the hash table of class names): the data that a successful
  \<^verbatim>\<open>j9bcv_storeClassRelationshipSnippetsToSharedCache\<close> puts in the cache decodes, by the
  reads of \<^verbatim>\<open>processClassRelationshipSnippetsUsingCachedData\<close>, to the pairs of names of the
  table's snippets, in the order of the table and so as a multiset. Every name fits the
  \<^verbatim>\<open>U_16\<close> length of a \<^verbatim>\<open>J9UTF8\<close> and the data is smaller than \<open>2 ^ 31\<close> bytes, which a
  \<^verbatim>\<open>J9SRP\<close> spans. And the store does succeed when no allocation fails, the cache takes the
  data and every name is shorter than 65535 bytes.
\<close>

theorem stored_snippets_are_read_back:
  assumes nonempty: "snippetEntries st \<noteq> []"
    and names: "\<forall>e \<in> set (snippetEntries st).
                  length (names (fst e)) < 65536 \<and> length (names (snd e)) < 65536"
    and size: "headerSize + length (snippetEntries st) * snippetSize
                 + getTotalUTF8Size names (snippetEntries st) < 2 ^ 31"
  shows "(\<forall>cfg' st'.
            j9bcv_storeClassRelationshipSnippetsToSharedCache names threshold key cfg st
              = Inr (BCV_SUCCESS, cfg', st')
            \<longrightarrow> (\<exists>blob decoded.
                   sharedData cfg' key = Some blob \<and> cachedSnippets blob = Inr decoded
                   \<and> decoded = map (\<lambda>e. (names (fst e), names (snd e))) (snippetEntries st)
                   \<and> mset decoded
                       = image_mset (\<lambda>e. (names (fst e), names (snd e))) (mset (snippetEntries st))))
       \<and> (False \<notin> set (allocs st) \<and> \<not> storeSharedDataFails cfg
            \<and> (\<forall>e \<in> set (snippetEntries st).
                  length (names (fst e)) < 65535 \<and> length (names (snd e)) < 65535)
          \<longrightarrow> (\<exists>cfg' st'.
                 j9bcv_storeClassRelationshipSnippetsToSharedCache names threshold key cfg st
                   = Inr (BCV_SUCCESS, cfg', st')))"
proof (intro conjI allI impI)
  fix cfg' st'
  assume run: "j9bcv_storeClassRelationshipSnippetsToSharedCache names threshold key cfg st
                 = Inr (BCV_SUCCESS, cfg', st')"
  let ?es = "snippetEntries st"
  let ?N = "headerSize + length ?es * snippetSize + getTotalUTF8Size names ?es"
  from nonempty have n0: "length ?es \<noteq> 0" by simp
  from run n0 obtain buffer buffer1 st2 where
    w: "writeBytes (replicate ?N (char_of (0 :: nat))) 0 (encodeLE 8 (length ?es)) = Some buffer"
    and s: "storeToDataBuffer names threshold ?es buffer headerSize
              (headerSize + length ?es * snippetSize) (length ?es) st2 = Inr (BCV_SUCCESS, buffer1, st')"
    and c: "cfg' = cfg\<lparr>sharedData := (sharedData cfg)(key \<mapsto> buffer1)\<rparr>"
    by (auto simp: j9bcv_storeClassRelationshipSnippetsToSharedCache_def Let_def
             split: prod.splits if_splits option.splits sum.splits)
  have lb: "length buffer < 2 ^ 31" using writeBytes_length[OF w] size by simp
  note R = storeToDataBuffer_roundtrip[OF s names lb]
  have "readBytes buffer 0 (length (encodeLE 8 (length ?es))) = Some (encodeLE 8 (length ?es))"
    using read_after_write[OF w] .
  then have h: "readBytes buffer1 0 headerSize = Some (encodeLE 8 (length ?es))"
    using R by (simp add: headerSize_def)
  have "length ?es < 256 ^ 8" using size by (simp add: snippetSize_def)
  then have d: "decodeLE (encodeLE 8 (length ?es)) = length ?es"
    by (simp add: decode_encodeLE)
  have "cachedSnippets buffer1 = Inr (map (\<lambda>e. (names (fst e), names (snd e))) ?es)"
    using h d R by (simp add: cachedSnippets_def)
  with c show "\<exists>blob decoded.
                   sharedData cfg' key = Some blob \<and> cachedSnippets blob = Inr decoded
                   \<and> decoded = map (\<lambda>e. (names (fst e), names (snd e))) (snippetEntries st)
                   \<and> mset decoded
                       = image_mset (\<lambda>e. (names (fst e), names (snd e))) (mset (snippetEntries st))"
    by simp
next
  assume a: "False \<notin> set (allocs st) \<and> \<not> storeSharedDataFails cfg
            \<and> (\<forall>e \<in> set (snippetEntries st).
                  length (names (fst e)) < 65535 \<and> length (names (snd e)) < 65535)"
  then have a1: "False \<notin> set (allocs st)" and a2: "\<not> storeSharedDataFails cfg"
    and a3: "\<forall>e \<in> set (snippetEntries st).
                  length (names (fst e)) < 65535 \<and> length (names (snd e)) < 65535"
    by simp_all
  from store_succeeds[OF a1 a2 a3]
  show "\<exists>cfg' st'. j9bcv_storeClassRelationshipSnippetsToSharedCache names threshold key cfg st
                   = Inr (BCV_SUCCESS, cfg', st')" .
qed

lemma exampleBuffers:
  "writeBytes (replicate 29 (char_of (0 :: nat))) 0 (encodeLE 8 1)
     = Some (encodeLE 8 1 @ replicate 21 (char_of (0 :: nat)))"
  "writeBytes (replicate 66 (char_of (0 :: nat))) 0 (encodeLE 8 2)
     = Some (encodeLE 8 2 @ replicate 58 (char_of (0 :: nat)))"
  by code_simp+

lemma exampleStore_single:
  "map_sum id (\<lambda>(rc, b, s). (rc, b))
     (storeToDataBuffer exampleNames 2 [(0, 1)] (encodeLE 8 1 @ replicate 21 (char_of (0 :: nat)))
        8 16 1 snippetsOne)
   = Inr (BCV_SUCCESS, exampleBlob)"
  by code_simp

lemma exampleStore_array:
  "map_sum id (\<lambda>(rc, b, s). (rc, b))
     (storeToDataBuffer exampleNames 2 [(0, 1), (0, 2)]
        (encodeLE 8 2 @ replicate 58 (char_of (0 :: nat))) 8 24 2 snippetsTwo)
   = Inr (BCV_SUCCESS, exampleBlobTwo)"
  by code_simp

lemma exampleStore_hashTable:
  "map_sum id (\<lambda>(rc, b, s). (rc, b))
     (storeToDataBuffer exampleNames 1 [(0, 1), (0, 2)]
        (encodeLE 8 2 @ replicate 58 (char_of (0 :: nat))) 8 24 2 snippetsTwo)
   = Inr (BCV_SUCCESS, exampleBlobTwo)"
  by code_simp

lemma map_sum_InrD:
  "map_sum id (\<lambda>(rc, b, s). (rc, b)) r = Inr (rc, b) \<Longrightarrow> \<exists>s. r = Inr (rc, b, s)"
  by (cases r) auto

lemma example_snippet_states:
  "snippetEntries snippetsOne = [(0, 1)]" "snippetEntries snippetsTwo = [(0, 1), (0, 2)]"
  "allocate snippetsOne = (True, snippetsOne)" "allocate snippetsTwo = (True, snippetsTwo)"
  "allocs snippetsOne = []" "allocs snippetsTwo = []"
  by (simp_all add: snippetsOne_def snippetsTwo_def snippetEntries_def allocate_def initialState_def)

lemma Suc_Suc_0: "Suc (Suc 0) = 2"
  by simp

lemma exampleStore_results:
  "\<exists>st'. j9bcv_storeClassRelationshipSnippetsToSharedCache exampleNames 2 ''App'' emptyCache snippetsOne
           = Inr (BCV_SUCCESS, emptyCache\<lparr>sharedData := [''App'' \<mapsto> exampleBlob]\<rparr>, st')"
  "\<exists>st'. j9bcv_storeClassRelationshipSnippetsToSharedCache exampleNames 2 ''App'' emptyCache snippetsTwo
           = Inr (BCV_SUCCESS, emptyCache\<lparr>sharedData := [''App'' \<mapsto> exampleBlobTwo]\<rparr>, st')"
  "\<exists>st'. j9bcv_storeClassRelationshipSnippetsToSharedCache exampleNames 1 ''App'' emptyCache snippetsTwo
           = Inr (BCV_SUCCESS, emptyCache\<lparr>sharedData := [''App'' \<mapsto> exampleBlobTwo]\<rparr>, st')"
proof -
  from map_sum_InrD[OF exampleStore_single] obtain s1 where
    s1: "storeToDataBuffer exampleNames 2 [(0, 1)] (encodeLE 8 1 @ replicate 21 (char_of (0 :: nat)))
        8 16 1 snippetsOne = Inr (BCV_SUCCESS, exampleBlob, s1)" by blast
  show "\<exists>st'. j9bcv_storeClassRelationshipSnippetsToSharedCache exampleNames 2 ''App'' emptyCache snippetsOne
           = Inr (BCV_SUCCESS, emptyCache\<lparr>sharedData := [''App'' \<mapsto> exampleBlob]\<rparr>, st')"
    using s1 exampleBuffers(1)
    by (simp add: j9bcv_storeClassRelationshipSnippetsToSharedCache_def example_snippet_states
        exampleNames_values headerSize_def snippetSize_def emptyCache_def)
  from map_sum_InrD[OF exampleStore_array] obtain s2 where
    s2: "storeToDataBuffer exampleNames 2 [(0, 1), (0, 2)]
        (encodeLE 8 2 @ replicate 58 (char_of (0 :: nat))) 8 24 2 snippetsTwo
          = Inr (BCV_SUCCESS, exampleBlobTwo, s2)" by blast
  show "\<exists>st'. j9bcv_storeClassRelationshipSnippetsToSharedCache exampleNames 2 ''App'' emptyCache snippetsTwo
           = Inr (BCV_SUCCESS, emptyCache\<lparr>sharedData := [''App'' \<mapsto> exampleBlobTwo]\<rparr>, st')"
    using s2 exampleBuffers(2)
    by (simp add: j9bcv_storeClassRelationshipSnippetsToSharedCache_def example_snippet_states
        exampleNames_values headerSize_def snippetSize_def emptyCache_def Suc_Suc_0)
  from map_sum_InrD[OF exampleStore_hashTable] obtain s3 where
    s3: "storeToDataBuffer exampleNames 1 [(0, 1), (0, 2)]
        (encodeLE 8 2 @ replicate 58 (char_of (0 :: nat))) 8 24 2 snippetsTwo
          = Inr (BCV_SUCCESS, exampleBlobTwo, s3)" by blast
  show "\<exists>st'. j9bcv_storeClassRelationshipSnippetsToSharedCache exampleNames 1 ''App'' emptyCache snippetsTwo
           = Inr (BCV_SUCCESS, emptyCache\<lparr>sharedData := [''App'' \<mapsto> exampleBlobTwo]\<rparr>, st')"
    using s3 exampleBuffers(2)
    by (simp add: j9bcv_storeClassRelationshipSnippetsToSharedCache_def example_snippet_states
        exampleNames_values headerSize_def snippetSize_def emptyCache_def Suc_Suc_0)
qed

theorem stored_snippets_are_read_back_witness:
  "(\<exists>st'. j9bcv_storeClassRelationshipSnippetsToSharedCache exampleNames 2 ''App'' emptyCache snippetsOne
           = Inr (BCV_SUCCESS, emptyCache\<lparr>sharedData := [''App'' \<mapsto> exampleBlob]\<rparr>, st'))
   \<and> cachedSnippets exampleBlob = Inr [(''App'', ''Base'')]
   \<and> (\<exists>st'. j9bcv_storeClassRelationshipSnippetsToSharedCache exampleNames 2 ''App'' emptyCache snippetsTwo
           = Inr (BCV_SUCCESS, emptyCache\<lparr>sharedData := [''App'' \<mapsto> exampleBlobTwo]\<rparr>, st'))
   \<and> (\<exists>st'. j9bcv_storeClassRelationshipSnippetsToSharedCache exampleNames 1 ''App'' emptyCache snippetsTwo
           = Inr (BCV_SUCCESS, emptyCache\<lparr>sharedData := [''App'' \<mapsto> exampleBlobTwo]\<rparr>, st'))
   \<and> cachedSnippets exampleBlobTwo = Inr [(''App'', ''Base''), (''App'', ''java/io/Serializable'')]"
proof -
  have n1: "snippetEntries snippetsOne \<noteq> []" and n2: "snippetEntries snippetsTwo \<noteq> []"
    by (simp_all add: example_snippet_states)
  have l1: "\<forall>e \<in> set (snippetEntries snippetsOne).
              length (exampleNames (fst e)) < 65536 \<and> length (exampleNames (snd e)) < 65536"
    and l2: "\<forall>e \<in> set (snippetEntries snippetsTwo).
              length (exampleNames (fst e)) < 65536 \<and> length (exampleNames (snd e)) < 65536"
    by (simp_all add: example_snippet_states exampleNames_values)
  have z1: "headerSize + length (snippetEntries snippetsOne) * snippetSize
              + getTotalUTF8Size exampleNames (snippetEntries snippetsOne) < 2 ^ 31"
    and z2: "headerSize + length (snippetEntries snippetsTwo) * snippetSize
              + getTotalUTF8Size exampleNames (snippetEntries snippetsTwo) < 2 ^ 31"
    by (simp_all add: example_snippet_states exampleNames_values headerSize_def snippetSize_def)
  from exampleStore_results(1) obtain s1 where
    r1: "j9bcv_storeClassRelationshipSnippetsToSharedCache exampleNames 2 ''App'' emptyCache snippetsOne
           = Inr (BCV_SUCCESS, emptyCache\<lparr>sharedData := [''App'' \<mapsto> exampleBlob]\<rparr>, s1)" by blast
  from exampleStore_results(3) obtain s3 where
    r3: "j9bcv_storeClassRelationshipSnippetsToSharedCache exampleNames 1 ''App'' emptyCache snippetsTwo
           = Inr (BCV_SUCCESS, emptyCache\<lparr>sharedData := [''App'' \<mapsto> exampleBlobTwo]\<rparr>, s3)" by blast
  note T1 = stored_snippets_are_read_back[OF n1 l1 z1, of 2 "''App''" emptyCache]
  note T3 = stored_snippets_are_read_back[OF n2 l2 z2, of 1 "''App''" emptyCache]
  from conjunct1[OF T1, rule_format, OF r1]
  have c1: "cachedSnippets exampleBlob = Inr [(''App'', ''Base'')]"
    by (simp add: example_snippet_states exampleNames_values)
  from conjunct1[OF T3, rule_format, OF r3]
  have c3: "cachedSnippets exampleBlobTwo = Inr [(''App'', ''Base''), (''App'', ''java/io/Serializable'')]"
    by (simp add: example_snippet_states exampleNames_values)
  from exampleStore_results c1 c3 show ?thesis by simp
qed

lemma writeBytes_fails:
  assumes "length mem < a + length bs"
  shows "writeBytes mem a bs = None"
  using assms by (simp add: writeBytes_def)

lemma store_long_name_out_of_bounds:
  assumes entries: "snippetEntries st = [(c, p)]"
    and long: "length (names c) = 65535" and short: "length (names p) < 65533"
    and mem: "False \<notin> set (allocs st)"
  shows "getTotalUTF8Size names (snippetEntries st) = length (names p) + 5
       \<and> j9bcv_storeClassRelationshipSnippetsToSharedCache names threshold key cfg st
           = Inl OutOfBounds"
proof -
  let ?es = "snippetEntries st"
  let ?N = "headerSize + length ?es * snippetSize + getTotalUTF8Size names ?es"
  have total: "getTotalUTF8Size names ?es = length (names p) + 5"
    using entries long short by simp
  have n0: "length ?es \<noteq> 0" using entries by simp
  from allocate_succeeds[OF mem] obtain st1 where
    a1: "allocate st = (True, st1)" "False \<notin> set (allocs st1)" by blast
  from allocate_succeeds[OF a1(2)] obtain st2 where
    a2: "allocate st1 = (True, st2)" "False \<notin> set (allocs st2)" by blast
  have "0 + length (encodeLE 8 (length ?es)) \<le> length (replicate ?N (char_of (0 :: nat)))"
    by (simp add: headerSize_def)
  from writeBytes_succeeds[OF this] obtain buffer where
    w: "writeBytes (replicate ?N (char_of (0 :: nat))) 0 (encodeLE 8 (length ?es)) = Some buffer"
    and l: "length buffer = ?N" by auto
  let ?lo = "\<lparr>dataBuffer = buffer, srpAddress = headerSize,
              nextUTF8Address = headerSize + length ?es * snippetSize, classNamesArray = [],
              classNamesHashTable = []\<rparr>"
  have "length (dataBuffer ?lo)
          < nextUTF8Address ?lo + length (encodeLE 2 (length (names c)) @ names c @ [char_of (0 :: nat)])"
    using l long short total by (simp add: headerSize_def snippetSize_def)
  from writeBytes_fails[OF this]
  have "setCurrentAndNextUTF8s names ?lo c = (None, length (names c) + 1 + 2)"
    by (simp add: setCurrentAndNextUTF8s_def Let_def)
  then have g: "getClassUTF8Address names J9RELATIONSHIP_SNIPPET_SINGLE (threshold * 2)
                  (length ?es * 2) ?lo st2 c = Inl OutOfBounds"
    by (simp add: getClassUTF8Address_def getUTF8Address_def)
  have one: "length ?es = 1" using entries by simp
  have "storeSnippets names J9RELATIONSHIP_SNIPPET_SINGLE (threshold * 2) (length ?es * 2) ?es ?lo st2
          = Inl OutOfBounds"
    using g by (simp add: entries)
  then have s: "storeToDataBuffer names threshold ?es buffer headerSize
             (headerSize + length ?es * snippetSize) (length ?es) st2 = Inl OutOfBounds"
    unfolding storeToDataBuffer_def Let_def by (simp add: one)
  have "j9bcv_storeClassRelationshipSnippetsToSharedCache names threshold key cfg st
           = Inl OutOfBounds"
    using n0 a1 a2 w s
    by (simp add: j9bcv_storeClassRelationshipSnippetsToSharedCache_def Let_def)
  with total show ?thesis by simp
qed

lemma longNames_values:
  "length (longNames 0) = 65535" "longNames 1 = ''B''" "longNames (Suc 0) = ''B''"
proof -
  have "length longName = 65535" unfolding longName_def by (rule length_replicate)
  then show "length (longNames 0) = 65535" by (simp add: longNames_def)
  show "longNames 1 = ''B''" "longNames (Suc 0) = ''B''" by (simp_all add: longNames_def)
qed

text \<open>
  \<^bold>\<open>C2.\<close> The cached data is read back as the pairs of names of the snippet table for every
  table whose names are shorter than 65535 bytes, as shown above. For a name of exactly 65535
  bytes it is not: \<^verbatim>\<open>getTotalUTF8Size\<close> keeps the length of a name plus one in a \<^verbatim>\<open>U_16\<close>,
  where 65536 is 0, so it counts 2 bytes for that name and 6 bytes for the two names of the
  snippet here, and \<^verbatim>\<open>setCurrentAndNextUTF8s\<close> writes the name past the end of the data buffer
  that was allocated with this size.
\<close>

theorem long_name_overflows_data_buffer:
  "getTotalUTF8Size longNames (snippetEntries snippetsOne) = 6
   \<and> j9bcv_storeClassRelationshipSnippetsToSharedCache longNames 2 ''App'' emptyCache snippetsOne
       = Inl OutOfBounds"
proof -
  have h: "length (longNames 1) < 65533" "False \<notin> set (allocs snippetsOne)"
    by (simp_all add: longNames_values example_snippet_states)
  from store_long_name_out_of_bounds[OF example_snippet_states(1) longNames_values(1) h,
      of 2 "''App''" emptyCache]
  show ?thesis by (simp add: longNames_values)
qed

section \<open>Lemmas on the verification pass around the cache\<close>

lemma afterRequests_refl: "afterRequests st st"
  unfolding afterRequests_def by (rule exI[of _ 0]) simp

lemma afterRequests_trans:
  assumes "afterRequests a b" and "afterRequests b c"
  shows "afterRequests a c"
proof -
  from assms obtain n m where b: "b = a\<lparr>allocs := drop n (allocs a)\<rparr>"
    and c: "c = b\<lparr>allocs := drop m (allocs b)\<rparr>" unfolding afterRequests_def by blast
  have "c = a\<lparr>allocs := drop (m + n) (allocs a)\<rparr>" using b c by (simp add: add.commute)
  then show ?thesis unfolding afterRequests_def by blast
qed

lemma afterRequests_none:
  assumes "afterRequests st st'" and "allocs st = []"
  shows "st' = st"
  using assms unfolding afterRequests_def by auto

lemma allocate_afterRequests:
  assumes "allocate st = (ok, st')"
  shows "afterRequests st st'"
proof (cases "allocs st")
  case Nil
  with assms have "st' = st" by (simp add: allocate_def)
  then show ?thesis by (simp add: afterRequests_refl)
next
  case (Cons b bs)
  with assms have "st' = st\<lparr>allocs := drop 1 (allocs st)\<rparr>" by (auto simp: allocate_def)
  then show ?thesis unfolding afterRequests_def by blast
qed

lemma getClassUTF8Address_afterRequests:
  assumes "getClassUTF8Address names cfg asz tot lo st idx = Inr (a, lo', st')"
  shows "afterRequests st st'"
proof (cases cfg)
  case J9RELATIONSHIP_SNIPPET_SINGLE
  with assms have "st' = st"
    by (auto simp: getClassUTF8Address_def getUTF8Address_def split: prod.splits option.splits)
  then show ?thesis by (simp add: afterRequests_refl)
next
  case J9RELATIONSHIP_SNIPPET_USE_ARRAY
  obtain ok st1 where a: "allocate st = (ok, st1)" by (cases "allocate st") auto
  from assms J9RELATIONSHIP_SNIPPET_USE_ARRAY a have "st' = st \<or> st' = st1"
    by (auto simp: getClassUTF8Address_def getUTF8AddressFromArray_def Let_def
             split: prod.splits option.splits if_splits)
  with allocate_afterRequests[OF a] show ?thesis by (auto simp: afterRequests_refl)
next
  case J9RELATIONSHIP_SNIPPET_USE_HASHTABLE
  obtain ok st1 where a: "allocate st = (ok, st1)" by (cases "allocate st") auto
  from assms J9RELATIONSHIP_SNIPPET_USE_HASHTABLE a have "st' = st \<or> st' = st1"
    by (auto simp: getClassUTF8Address_def getUTF8AddressFromHashTable_def Let_def
             split: prod.splits option.splits if_splits)
  with allocate_afterRequests[OF a] show ?thesis by (auto simp: afterRequests_refl)
qed

lemma storeSnippets_afterRequests:
  assumes "storeSnippets names cfg asz tot entries lo st = Inr (rc, lo', st')"
  shows "afterRequests st st'"
  using assms
proof (induction entries arbitrary: lo st)
  case Nil
  then show ?case by (simp add: afterRequests_refl)
next
  case (Cons e entries)
  from Cons.prems obtain a1 lo1 st1 where
    g1: "getClassUTF8Address names cfg asz tot lo st (fst e) = Inr (a1, lo1, st1)"
    by (auto split: sum.splits)
  note r1 = getClassUTF8Address_afterRequests[OF g1]
  show ?case
  proof (cases a1)
    case None
    with Cons.prems g1 have "st' = st1" by simp
    with r1 show ?thesis by simp
  next
    case (Some ca)
    with Cons.prems g1 obtain a2 lo2 st2 where
      g2: "getClassUTF8Address names cfg asz tot lo1 st1 (snd e) = Inr (a2, lo2, st2)"
      by (auto split: sum.splits)
    note r2 = afterRequests_trans[OF r1 getClassUTF8Address_afterRequests[OF g2]]
    show ?thesis
    proof (cases a2)
      case None
      with Cons.prems g1 g2 Some have "st' = st2" by simp
      with r2 show ?thesis by simp
    next
      case (Some pa)
      with Cons.prems g1 g2 \<open>a1 = Some ca\<close> obtain lo3 where
        "storeSnippets names cfg asz tot entries lo3 st2 = Inr (rc, lo', st')"
        by (auto split: option.splits)
      from afterRequests_trans[OF r2 Cons.IH[OF this]] show ?thesis .
    qed
  qed
qed

lemma storeToDataBuffer_afterRequests:
  assumes "storeToDataBuffer names threshold entries buffer s u n st = Inr (rc, buffer1, st')"
  shows "afterRequests st st'"
proof -
  obtain ok st1 where t: "(if n \<noteq> 1 \<and> threshold < n then allocate st else (True, st)) = (ok, st1)"
    by (cases "if n \<noteq> 1 \<and> threshold < n then allocate st else (True, st)") auto
  have r1: "afterRequests st st1"
    using t allocate_afterRequests[of st ok st1] by (auto simp: afterRequests_refl split: if_splits)
  show ?thesis
  proof (cases ok)
    case False
    with assms t have "st' = st1" by (simp add: storeToDataBuffer_def Let_def)
    with r1 show ?thesis by simp
  next
    case True
    with assms t obtain cfg lo lo1 where
      "storeSnippets names cfg (threshold * 2) (n * 2) entries lo st1 = Inr (rc, lo1, st')"
      by (auto simp: storeToDataBuffer_def Let_def split: sum.splits)
    from afterRequests_trans[OF r1 storeSnippets_afterRequests[OF this]] show ?thesis .
  qed
qed

lemma store_afterRequests:
  assumes "j9bcv_storeClassRelationshipSnippetsToSharedCache names threshold key cfg st
             = Inr (rc, cfg', st')"
  shows "afterRequests st st'"
proof (cases "length (snippetEntries st) = 0")
  case True
  with assms show ?thesis
    by (simp add: j9bcv_storeClassRelationshipSnippetsToSharedCache_def afterRequests_refl)
next
  case False
  obtain k1 st1 where a1: "allocate st = (k1, st1)" by (cases "allocate st") auto
  obtain k2 st2 where a2: "allocate st1 = (k2, st2)" by (cases "allocate st1") auto
  note r1 = allocate_afterRequests[OF a1]
  note r2 = afterRequests_trans[OF r1 allocate_afterRequests[OF a2]]
  show ?thesis
  proof (cases "k1 \<and> k2")
    case False
    with assms \<open>length (snippetEntries st) \<noteq> 0\<close> a1 a2 have "st' = st1 \<or> st' = st2"
      by (auto simp: j9bcv_storeClassRelationshipSnippetsToSharedCache_def Let_def split: if_splits)
    with r1 r2 show ?thesis by auto
  next
    case True
    with assms \<open>length (snippetEntries st) \<noteq> 0\<close> a1 a2 obtain buffer rc1 buffer1 where
      "storeToDataBuffer names threshold (snippetEntries st) buffer headerSize
         (headerSize + length (snippetEntries st) * snippetSize) (length (snippetEntries st)) st2
         = Inr (rc1, buffer1, st')"
      by (auto simp: j9bcv_storeClassRelationshipSnippetsToSharedCache_def Let_def
               split: option.splits sum.splits if_splits)
    from afterRequests_trans[OF r2 storeToDataBuffer_afterRequests[OF this]] show ?thesis .
  qed
qed

lemma store_total:
  assumes "False \<notin> set (allocs st)"
    and "\<forall>e \<in> set (snippetEntries st).
           length (names (fst e)) < 65535 \<and> length (names (snd e)) < 65535"
  shows "\<exists>rc cfg' st'. j9bcv_storeClassRelationshipSnippetsToSharedCache names threshold key cfg st
           = Inr (rc, cfg', st')
         \<and> (rc = BCV_SUCCESS \<or> rc = BCV_ERR_INTERNAL_ERROR)
         \<and> (storeSharedDataFails cfg \<longrightarrow> cfg' = cfg)"
proof (cases "snippetEntries st = []")
  case True
  then show ?thesis by (simp add: j9bcv_storeClassRelationshipSnippetsToSharedCache_def)
next
  case False
  let ?es = "snippetEntries st"
  let ?N = "headerSize + length ?es * snippetSize + getTotalUTF8Size names ?es"
  from allocate_succeeds[OF assms(1)] obtain st1 where
    a1: "allocate st = (True, st1)" "False \<notin> set (allocs st1)" by blast
  from allocate_succeeds[OF a1(2)] obtain st2 where
    a2: "allocate st1 = (True, st2)" "False \<notin> set (allocs st2)" by blast
  have "0 + length (encodeLE 8 (length ?es)) \<le> length (replicate ?N (char_of (0 :: nat)))"
    by (simp add: headerSize_def)
  from writeBytes_succeeds[OF this] obtain buffer where
    w: "writeBytes (replicate ?N (char_of (0 :: nat))) 0 (encodeLE 8 (length ?es)) = Some buffer"
    and l: "length buffer = ?N" by auto
  from storeToDataBuffer_succeeds[OF a2(2) l assms(2), of threshold] obtain buffer1 st3 where
    s: "storeToDataBuffer names threshold ?es buffer headerSize
          (headerSize + length ?es * snippetSize) (length ?es) st2 = Inr (BCV_SUCCESS, buffer1, st3)"
    by blast
  show ?thesis using False a1 a2 w s
    by (simp add: j9bcv_storeClassRelationshipSnippetsToSharedCache_def Let_def)
qed

lemma checkSnippet_codes:
  assumes "checkSnippetRelationship vm st c p = (rc, st1)"
  shows "rc = BCV_SUCCESS \<or> rc = BCV_ERR_INSUFFICIENT_MEMORY
       \<or> (rc = BCV_ERR_INTERNAL_ERROR \<and> trace st1 = trace st @ [InvalidRelationship p])"
proof -
  obtain r rc0 st0 where rec: "j9bcv_recordClassRelationship st c p = (r, rc0, st0)"
    by (cases "j9bcv_recordClassRelationship st c p") auto
  from record_result[OF rec] have "rc0 = BCV_SUCCESS \<or> rc0 = BCV_ERR_INSUFFICIENT_MEMORY"
    by (cases r) simp_all
  with assms rec show ?thesis
    by (auto simp: checkSnippetRelationship_def split: option.splits if_splits)
qed

lemma processNoCached_codes:
  assumes "processClassRelationshipSnippetsNoCachedData vm names entries BCV_SUCCESS st = (rc, st')"
  shows "rc = BCV_SUCCESS \<or> rc = BCV_ERR_INSUFFICIENT_MEMORY
       \<or> (rc = BCV_ERR_INTERNAL_ERROR
           \<and> (\<exists>c p pre. trace st' = pre @ [InvalidRelationship p, ErrorWhileProcessing c p]))"
  using assms
proof (induction entries arbitrary: st)
  case Nil
  then show ?case by simp
next
  case (Cons e entries)
  obtain rc1 st1 where c: "checkSnippetRelationship vm st (names (fst e)) (names (snd e)) = (rc1, st1)"
    by (cases "checkSnippetRelationship vm st (names (fst e)) (names (snd e))") auto
  show ?case
  proof (cases "rc1 = BCV_SUCCESS")
    case True
    with Cons.prems c have "processClassRelationshipSnippetsNoCachedData vm names entries BCV_SUCCESS st1
        = (rc, st')" by simp
    from Cons.IH[OF this] show ?thesis .
  next
    case False
    with Cons.prems c have rc: "rc = rc1"
      and st': "st' = st1\<lparr>trace := trace st1 @ [ErrorWhileProcessing (names (fst e)) (names (snd e))]\<rparr>"
      by simp_all
    from checkSnippet_codes[OF c] False
    have "rc1 = BCV_ERR_INSUFFICIENT_MEMORY
       \<or> (rc1 = BCV_ERR_INTERNAL_ERROR \<and> trace st1 = trace st @ [InvalidRelationship (names (snd e))])"
      by simp
    then show ?thesis
    proof
      assume "rc1 = BCV_ERR_INSUFFICIENT_MEMORY"
      with rc show ?thesis by simp
    next
      assume a: "rc1 = BCV_ERR_INTERNAL_ERROR \<and> trace st1 = trace st @ [InvalidRelationship (names (snd e))]"
      then have "trace st' = trace st @ [InvalidRelationship (names (snd e)),
                   ErrorWhileProcessing (names (fst e)) (names (snd e))]"
        using st' by simp
      then have "\<exists>c p pre. trace st' = pre @ [InvalidRelationship p, ErrorWhileProcessing c p]"
        by blast
      with a rc show ?thesis by simp
    qed
  qed
qed

lemma processCached_codes:
  assumes "processCachedSnippets vm blob left i BCV_SUCCESS st = Inr (rc, st')"
  shows "rc = BCV_SUCCESS \<or> rc = BCV_ERR_INSUFFICIENT_MEMORY
       \<or> (rc = BCV_ERR_INTERNAL_ERROR
           \<and> (\<exists>c p pre. trace st' = pre @ [InvalidRelationship p, ErrorWhileProcessing c p]))"
  using assms
proof (induction left arbitrary: i st)
  case 0
  then show ?case by simp
next
  case (Suc left)
  from Suc.prems obtain cn pn where d: "decodeSnippet blob i = Inr (cn, pn)"
    by (auto split: sum.splits)
  obtain rc1 st1 where c: "checkSnippetRelationship vm st cn pn = (rc1, st1)"
    by (cases "checkSnippetRelationship vm st cn pn") auto
  show ?case
  proof (cases "rc1 = BCV_SUCCESS")
    case True
    with Suc.prems d c have "processCachedSnippets vm blob left (Suc i) BCV_SUCCESS st1 = Inr (rc, st')"
      by simp
    from Suc.IH[OF this] show ?thesis .
  next
    case False
    with Suc.prems d c have rc: "rc = rc1"
      and st': "st' = st1\<lparr>trace := trace st1 @ [ErrorWhileProcessing cn pn]\<rparr>"
      by simp_all
    from checkSnippet_codes[OF c] False
    have "rc1 = BCV_ERR_INSUFFICIENT_MEMORY
       \<or> (rc1 = BCV_ERR_INTERNAL_ERROR \<and> trace st1 = trace st @ [InvalidRelationship pn])"
      by simp
    then show ?thesis
    proof
      assume "rc1 = BCV_ERR_INSUFFICIENT_MEMORY"
      with rc show ?thesis by simp
    next
      assume a: "rc1 = BCV_ERR_INTERNAL_ERROR \<and> trace st1 = trace st @ [InvalidRelationship pn]"
      then have "trace st' = trace st @ [InvalidRelationship pn, ErrorWhileProcessing cn pn]"
        using st' by simp
      then have "\<exists>c p pre. trace st' = pre @ [InvalidRelationship p, ErrorWhileProcessing c p]"
        by blast
      with a rc show ?thesis by simp
    qed
  qed
qed

lemma process_codes:
  assumes "j9bcv_processClassRelationshipSnippets vm names d st = Inr (rc, st')"
  shows "rc = BCV_SUCCESS \<or> rc = BCV_ERR_INSUFFICIENT_MEMORY
       \<or> (rc = BCV_ERR_INTERNAL_ERROR
           \<and> (\<exists>c p pre. trace st' = pre @ [InvalidRelationship p, ErrorWhileProcessing c p]))"
proof (cases d)
  case (Some blob)
  with assms obtain header where
    "processCachedSnippets vm blob (decodeLE header) 0 BCV_SUCCESS st = Inr (rc, st')"
    by (auto simp: j9bcv_processClassRelationshipSnippets_def
                   processClassRelationshipSnippetsUsingCachedData_def split: option.splits)
  from processCached_codes[OF this] show ?thesis .
next
  case None
  show ?thesis
  proof (cases "classRelationshipSnippetsHashTable st")
    case None
    with assms \<open>d = None\<close> show ?thesis by (simp add: j9bcv_processClassRelationshipSnippets_def)
  next
    case (Some entries)
    obtain rc1 st1 where p: "processClassRelationshipSnippetsNoCachedData vm names entries BCV_SUCCESS st
        = (rc1, st1)"
      by (cases "processClassRelationshipSnippetsNoCachedData vm names entries BCV_SUCCESS st") auto
    with assms \<open>d = None\<close> Some have "rc = rc1"
      and "st' = st1\<lparr>classRelationshipSnippetsHashTable := None\<rparr>"
      by (simp_all add: j9bcv_processClassRelationshipSnippets_def)
    with processNoCached_codes[OF p] show ?thesis by simp
  qed
qed

lemma process_local_total:
  "\<exists>rc st'. j9bcv_processClassRelationshipSnippets vm names None st = Inr (rc, st')"
  by (auto simp: j9bcv_processClassRelationshipSnippets_def split: option.splits prod.splits)

lemma fetch_not_found:
  assumes "findSharedDataFails cfg \<or> sharedData cfg key = None"
  shows "\<exists>rc st1. j9bcv_fetchClassRelationshipSnippetsFromSharedCache key cfg st = (False, None, rc, st1)
           \<and> afterRequests st st1"
proof -
  obtain ok st1 where a: "allocate st = (ok, st1)" by (cases "allocate st") auto
  with assms allocate_afterRequests[OF a] show ?thesis
    by (auto simp: j9bcv_fetchClassRelationshipSnippetsFromSharedCache_def)
qed

lemma recordSnippets_fresh:
  assumes "allocs st = []" and "classRelationshipSnippetsHashTable st = None"
    and "recordSnippets st requests = (rcs, st2)"
  shows "BCV_ERR_INSUFFICIENT_MEMORY \<notin> set rcs \<and> allocs st2 = []
       \<and> set (snippetEntries st2) \<subseteq> set requests"
proof -
  have d: "distinct (snippetEntries st)" using assms(2) by (simp add: snippetEntries_def)
  have e: "snippetEntries st = []" using assms(2) by (simp add: snippetEntries_def)
  note R = recordSnippets_result[OF assms(3) d]
  from R assms(1) have ok: "set rcs \<subseteq> {BCV_SUCCESS}" by simp
  then have r1: "BCV_ERR_INSUFFICIENT_MEMORY \<notin> set rcs" by auto
  from R e have "set (snippetEntries st2)
      = set (map fst (filter (\<lambda>x. snd x = BCV_SUCCESS) (zip requests rcs)))" by simp
  also have "\<dots> \<subseteq> set requests" by (auto dest: set_zip_leftD)
  finally have r3: "set (snippetEntries st2) \<subseteq> set requests" .
  have r2: "allocs st2 = []" using assms(1,3)
  proof (induction requests arbitrary: st rcs)
    case Nil
    then show ?case by simp
  next
    case (Cons q requests)
    obtain r rc st1 where s: "j9bcv_recordClassRelationshipSnippet st (fst q) (snd q) = (r, rc, st1)"
      by (cases "j9bcv_recordClassRelationshipSnippet st (fst q) (snd q)") auto
    from recordSnippet_result[OF s] Cons.prems(1) have a1: "allocs st1 = []" by simp
    obtain rcs1 where "recordSnippets st1 requests = (rcs1, st2)"
      using Cons.prems(2) s by (auto split: prod.splits)
    from Cons.IH[OF a1 this] show ?case .
  qed
  from r1 r2 r3 show ?thesis by simp
qed

text \<open>
  \<^bold>\<open>C9.\<close> In a verification pass around the cache, from a state with memory for every
  request and no snippet table yet: when the find in the cache fails or finds nothing, the pass
  ends as the pass over the local table ends, with the reason code and the state that
  \<^verbatim>\<open>j9bcv_processClassRelationshipSnippets\<close> gives for the recorded snippets, whether the
  store to the cache fails or not; a store that fails leaves the cache as it is. And whatever
  the cache does and whatever memory there is, a pass that does not end with \<^verbatim>\<open>BCV_SUCCESS\<close>
  has run out of memory or has met an invalid relationship, which the trace names: a failure of
  the cache is never the reason.
\<close>

theorem cache_failure_is_soft:
  "(allocs st = [] \<and> classRelationshipSnippetsHashTable st = None
      \<and> (findSharedDataFails cfg \<or> sharedData cfg key = None)
      \<and> (\<forall>r \<in> set requests. length (names (fst r)) < 65535 \<and> length (names (snd r)) < 65535)
    \<longrightarrow> (\<exists>rc0 cfg0 st0.
           verifyClassRelationshipSnippets vm names threshold key requests cfg st = Inr (rc0, cfg0, st0)
           \<and> j9bcv_processClassRelationshipSnippets vm names None (snd (recordSnippets st requests))
               = Inr (rc0, st0)
           \<and> (storeSharedDataFails cfg \<longrightarrow> cfg0 = cfg)))
   \<and> (verifyClassRelationshipSnippets vm names threshold key requests cfg st = Inr (rc, cfg', st')
      \<longrightarrow> rc = BCV_SUCCESS \<or> rc = BCV_ERR_INSUFFICIENT_MEMORY
          \<or> (rc = BCV_ERR_INTERNAL_ERROR
              \<and> (\<exists>c p pre. trace st' = pre @ [InvalidRelationship p, ErrorWhileProcessing c p])))"
proof (intro conjI impI)
  assume a: "allocs st = [] \<and> classRelationshipSnippetsHashTable st = None
      \<and> (findSharedDataFails cfg \<or> sharedData cfg key = None)
      \<and> (\<forall>r \<in> set requests. length (names (fst r)) < 65535 \<and> length (names (snd r)) < 65535)"
  then have a1: "allocs st = []" and a2: "classRelationshipSnippetsHashTable st = None"
    and a3: "findSharedDataFails cfg \<or> sharedData cfg key = None"
    and a4: "\<forall>r \<in> set requests. length (names (fst r)) < 65535 \<and> length (names (snd r)) < 65535"
    by simp_all
  from fetch_not_found[OF a3, of st] obtain frc st1 where
    f: "j9bcv_fetchClassRelationshipSnippetsFromSharedCache key cfg st = (False, None, frc, st1)"
    and "afterRequests st st1" by blast
  with a1 have st1: "st1 = st" by (simp add: afterRequests_none)
  obtain rcs st2 where r: "recordSnippets st requests = (rcs, st2)"
    by (cases "recordSnippets st requests") auto
  from recordSnippets_fresh[OF a1 a2 r] have r1: "BCV_ERR_INSUFFICIENT_MEMORY \<notin> set rcs"
    and r2: "allocs st2 = []" and r3: "set (snippetEntries st2) \<subseteq> set requests" by simp_all
  have n2: "False \<notin> set (allocs st2)" using r2 by simp
  have l2: "\<forall>e \<in> set (snippetEntries st2).
           length (names (fst e)) < 65535 \<and> length (names (snd e)) < 65535"
    using a4 r3 by blast
  from store_total[OF n2 l2, of threshold key cfg] obtain src cfg1 st3 where
    s: "j9bcv_storeClassRelationshipSnippetsToSharedCache names threshold key cfg st2
           = Inr (src, cfg1, st3)"
    and s1: "src = BCV_SUCCESS \<or> src = BCV_ERR_INTERNAL_ERROR"
    and s2: "storeSharedDataFails cfg \<longrightarrow> cfg1 = cfg" by blast
  from store_afterRequests[OF s] r2 have st3: "st3 = st2" by (simp add: afterRequests_none)
  from s1 have s3: "src \<noteq> BCV_ERR_INSUFFICIENT_MEMORY" by auto
  from process_local_total[of vm names st2] obtain prc st4 where
    p: "j9bcv_processClassRelationshipSnippets vm names None st2 = Inr (prc, st4)" by blast
  have "verifyClassRelationshipSnippets vm names threshold key requests cfg st = Inr (prc, cfg1, st4)"
    using f st1 r r1 s st3 s3 p by (simp add: verifyClassRelationshipSnippets_def)
  with p r s2 show "\<exists>rc0 cfg0 st0.
           verifyClassRelationshipSnippets vm names threshold key requests cfg st = Inr (rc0, cfg0, st0)
           \<and> j9bcv_processClassRelationshipSnippets vm names None (snd (recordSnippets st requests))
               = Inr (rc0, st0)
           \<and> (storeSharedDataFails cfg \<longrightarrow> cfg0 = cfg)"
    by simp
next
  assume v: "verifyClassRelationshipSnippets vm names threshold key requests cfg st = Inr (rc, cfg', st')"
  obtain found d frc st1 where
    f: "j9bcv_fetchClassRelationshipSnippetsFromSharedCache key cfg st = (found, d, frc, st1)"
    by (cases "j9bcv_fetchClassRelationshipSnippetsFromSharedCache key cfg st") auto
  show "rc = BCV_SUCCESS \<or> rc = BCV_ERR_INSUFFICIENT_MEMORY
          \<or> (rc = BCV_ERR_INTERNAL_ERROR
              \<and> (\<exists>c p pre. trace st' = pre @ [InvalidRelationship p, ErrorWhileProcessing c p]))"
  proof (cases found)
    case True
    with v f have "j9bcv_processClassRelationshipSnippets vm names d st1 = Inr (rc, st')"
      by (auto simp: verifyClassRelationshipSnippets_def split: sum.splits)
    from process_codes[OF this] show ?thesis .
  next
    case False
    obtain rcs st2 where r: "recordSnippets st1 requests = (rcs, st2)"
      by (cases "recordSnippets st1 requests") auto
    show ?thesis
    proof (cases "BCV_ERR_INSUFFICIENT_MEMORY \<in> set rcs")
      case True
      with v f False r show ?thesis by (simp add: verifyClassRelationshipSnippets_def)
    next
      case nomem: False
      with v f False r obtain src cfg1 st3 where
        s: "j9bcv_storeClassRelationshipSnippetsToSharedCache names threshold key cfg st2
              = Inr (src, cfg1, st3)"
        by (auto simp: verifyClassRelationshipSnippets_def split: sum.splits)
      show ?thesis
      proof (cases "src = BCV_ERR_INSUFFICIENT_MEMORY")
        case True
        with v f False r nomem s show ?thesis by (simp add: verifyClassRelationshipSnippets_def)
      next
        case False
        with v f \<open>\<not> found\<close> r nomem s
        have "j9bcv_processClassRelationshipSnippets vm names None st3 = Inr (rc, st')"
          by (auto simp: verifyClassRelationshipSnippets_def split: sum.splits)
        from process_codes[OF this] show ?thesis .
      qed
    qed
  qed
qed

lemma failingCache_values:
  "findSharedDataFails failingCache" "storeSharedDataFails failingCache"
  by (simp_all add: failingCache_def)

theorem cache_failure_is_soft_witness:
  "verifyClassRelationshipSnippets loadedVM exampleNames 2 ''App'' [(0, 2)] failingCache initialState
     = Inr (BCV_SUCCESS, failingCache,
            initialState\<lparr>trace := [ParentClassIsInterface ''java/io/Serializable'']\<rparr>)
   \<and> verifyClassRelationshipSnippets loadedVM exampleNames 2 ''App'' [(0, 1)] failingCache initialState
     = Inr (BCV_ERR_INTERNAL_ERROR, failingCache,
            initialState\<lparr>trace := [InvalidRelationship ''Base'',
                                   ErrorWhileProcessing ''App'' ''Base'']\<rparr>)"
proof -
  have h1: "allocs initialState = [] \<and> classRelationshipSnippetsHashTable initialState = None
      \<and> (findSharedDataFails failingCache \<or> sharedData failingCache ''App'' = None)
      \<and> (\<forall>r \<in> set [(0, 2)]. length (exampleNames (fst r)) < 65535
                               \<and> length (exampleNames (snd r)) < 65535)"
    by (simp add: initialState_def failingCache_values exampleNames_values)
  have h2: "allocs initialState = [] \<and> classRelationshipSnippetsHashTable initialState = None
      \<and> (findSharedDataFails failingCache \<or> sharedData failingCache ''App'' = None)
      \<and> (\<forall>r \<in> set [(0, 1)]. length (exampleNames (fst r)) < 65535
                               \<and> length (exampleNames (snd r)) < 65535)"
    by (simp add: initialState_def failingCache_values exampleNames_values)
  have r1: "snd (recordSnippets initialState [(0, 2)])
              = initialState\<lparr>classRelationshipSnippetsHashTable := Some [(0, 2)]\<rparr>"
    and r2: "snd (recordSnippets initialState [(0, 1)])
              = initialState\<lparr>classRelationshipSnippetsHashTable := Some [(0, 1)]\<rparr>"
    by (simp_all add: snippet_eval_defs)
  have p1: "j9bcv_processClassRelationshipSnippets loadedVM exampleNames None
              (initialState\<lparr>classRelationshipSnippetsHashTable := Some [(0, 2)]\<rparr>)
            = Inr (BCV_SUCCESS, initialState\<lparr>trace := [ParentClassIsInterface ''java/io/Serializable'']\<rparr>)"
    using checkSnippet_interface[OF loadedVM_values(3) loadedVM_values(5),
        of "initialState\<lparr>classRelationshipSnippetsHashTable := Some [(0, 2)]\<rparr>" "''App''"]
    by (simp add: j9bcv_processClassRelationshipSnippets_def exampleNames_values initialState_def)
  have p2: "j9bcv_processClassRelationshipSnippets loadedVM exampleNames None
              (initialState\<lparr>classRelationshipSnippetsHashTable := Some [(0, 1)]\<rparr>)
            = Inr (BCV_ERR_INTERNAL_ERROR,
                   initialState\<lparr>trace := [InvalidRelationship ''Base'',
                                          ErrorWhileProcessing ''App'' ''Base'']\<rparr>)"
    using checkSnippet_violation[OF loadedVM_values(1) loadedVM_values(4) loadedVM_values(2)
        loadedVM_values(6), of "initialState\<lparr>classRelationshipSnippetsHashTable := Some [(0, 1)]\<rparr>"]
    by (simp add: j9bcv_processClassRelationshipSnippets_def exampleNames_values initialState_def)
  note T1 = cache_failure_is_soft[of initialState failingCache "''App''" "[(0, 2)]" exampleNames
      loadedVM 2 BCV_SUCCESS failingCache
      "initialState\<lparr>trace := [ParentClassIsInterface ''java/io/Serializable'']\<rparr>"]
  note T2 = cache_failure_is_soft[of initialState failingCache "''App''" "[(0, 1)]" exampleNames
      loadedVM 2 BCV_ERR_INTERNAL_ERROR failingCache
      "initialState\<lparr>trace := [InvalidRelationship ''Base'', ErrorWhileProcessing ''App'' ''Base'']\<rparr>"]
  from conjunct1[OF T1, THEN mp, OF h1]
  have v1: "verifyClassRelationshipSnippets loadedVM exampleNames 2 ''App'' [(0, 2)] failingCache
              initialState
     = Inr (BCV_SUCCESS, failingCache,
            initialState\<lparr>trace := [ParentClassIsInterface ''java/io/Serializable'']\<rparr>)"
    by (auto simp only: r1 p1 failingCache_values sum.inject prod.inject simp_thms)
  from conjunct1[OF T2, THEN mp, OF h2]
  have v2: "verifyClassRelationshipSnippets loadedVM exampleNames 2 ''App'' [(0, 1)] failingCache
              initialState
     = Inr (BCV_ERR_INTERNAL_ERROR, failingCache,
            initialState\<lparr>trace := [InvalidRelationship ''Base'',
                                   ErrorWhileProcessing ''App'' ''Base'']\<rparr>)"
    by (auto simp only: r2 p2 failingCache_values sum.inject prod.inject simp_thms)
  from conjunct2[OF T2, THEN mp, OF v2]
  have "\<exists>c p pre. trace (initialState\<lparr>trace := [InvalidRelationship ''Base'',
                                   ErrorWhileProcessing ''App'' ''Base'']\<rparr>)
                    = pre @ [InvalidRelationship p, ErrorWhileProcessing c p]"
    by simp
  with v1 v2 show ?thesis by simp
qed

end
